theory Spec2Isabelle
  imports Complex_Main
begin

section \<open>Characters and strings\<close>

text \<open>
  Python strings are modelled as \<^typ>\<open>string\<close> (lists of \<^typ>\<open>char\<close>).  The character
  classes below are the tables of \<^verbatim>\<open>str.isspace\<close>, \<^verbatim>\<open>str.isalpha\<close>,
  \<^verbatim>\<open>str.isupper\<close>, \<^verbatim>\<open>str.lower\<close> and of the regular expression classes
  \<^verbatim>\<open>\s\<close> and \<^verbatim>\<open>\w\<close> on the ASCII range; text outside ASCII is outside the model.
  On that range \<^verbatim>\<open>\s\<close>, \<^verbatim>\<open>str.strip()\<close> and \<^verbatim>\<open>str.split()\<close> agree with
  \<^verbatim>\<open>str.isspace\<close>: tab, line feed, vertical tab, form feed, carriage return, the four
  separators 0x1C..0x1F and the space.
\<close>

definition LF :: char where
  "LF = CHR 0x0A"

definition CR :: char where
  "CR = CHR 0x0D"

definition whitespace_chars :: "char list" where
  "whitespace_chars =
     [CHR 0x09, CHR 0x0A, CHR 0x0B, CHR 0x0C, CHR 0x0D,
      CHR 0x1C, CHR 0x1D, CHR 0x1E, CHR 0x1F, CHR 0x20]"

definition isspace :: "char \<Rightarrow> bool" where
  "isspace c = (c \<in> set whitespace_chars)"

definition ascii_uppercase :: string where
  "ascii_uppercase = ''ABCDEFGHIJKLMNOPQRSTUVWXYZ''"

definition ascii_lowercase :: string where
  "ascii_lowercase = ''abcdefghijklmnopqrstuvwxyz''"

definition ascii_digits :: string where
  "ascii_digits = ''0123456789''"

definition isupper :: "char \<Rightarrow> bool" where
  "isupper c = (c \<in> set ascii_uppercase)"

definition isalpha :: "char \<Rightarrow> bool" where
  "isalpha c = (c \<in> set (ascii_uppercase @ ascii_lowercase))"

text \<open>The class \<^verbatim>\<open>\w\<close>: letters, digits and the underscore.\<close>

definition is_word_char :: "char \<Rightarrow> bool" where
  "is_word_char c = (isalpha c \<or> c \<in> set ascii_digits \<or> c = CHR ''_'')"

definition lower_char :: "char \<Rightarrow> char" where
  "lower_char c =
     (case map_of (zip ascii_uppercase ascii_lowercase) c of Some l \<Rightarrow> l | None \<Rightarrow> c)"

definition lower :: "string \<Rightarrow> string" where
  "lower s = map lower_char s"

text \<open>\<^verbatim>\<open>s.strip()\<close>: leading and trailing whitespace removed.\<close>

definition strip :: "string \<Rightarrow> string" where
  "strip s = rev (dropWhile isspace (rev (dropWhile isspace s)))"

text \<open>
  \<^verbatim>\<open>s.split()\<close>: the maximal runs of non-whitespace characters, in order; \<open>cur\<close> is
  the word being read.
\<close>

fun str_split_from :: "string \<Rightarrow> string \<Rightarrow> string list" where
  "str_split_from cur [] = (if cur = [] then [] else [cur])"
| "str_split_from cur (c # cs) =
     (if isspace c
      then (if cur = [] then str_split_from [] cs else cur # str_split_from [] cs)
      else str_split_from (cur @ [c]) cs)"

definition str_split :: "string \<Rightarrow> string list" where
  "str_split s = str_split_from [] s"

text \<open>\<^verbatim>\<open>sep.join(parts)\<close>.\<close>

fun str_join :: "string \<Rightarrow> string list \<Rightarrow> string" where
  "str_join sep [] = []"
| "str_join sep [x] = x"
| "str_join sep (x # y # ys) = x @ sep @ str_join sep (y # ys)"

section \<open>Tokens and chunks\<close>

record TokenRecord =
  t_word :: string
  t_page_number :: nat
  t_section :: string

record ChunkRecord =
  c_chunk_index :: nat
  c_section :: string
  c_page_start :: nat
  c_page_end :: nat
  c_token_count :: nat
  c_content :: string

text \<open>
  \<^verbatim>\<open>collections.Counter\<close> over the section labels of a window: an association list in
  insertion order.  \<^verbatim>\<open>most_common(1)\<close> returns the first entry whose count is maximal.
\<close>

fun counter_add :: "(string \<times> nat) list \<Rightarrow> string \<Rightarrow> (string \<times> nat) list" where
  "counter_add [] k = [(k, 1)]"
| "counter_add ((k', n) # kvs) k =
     (if k' = k then (k', n + 1) # kvs else (k', n) # counter_add kvs k)"

definition counter_of :: "string list \<Rightarrow> (string \<times> nat) list" where
  "counter_of xs = foldl counter_add [] xs"

fun max_first :: "(string \<times> nat) \<Rightarrow> (string \<times> nat) list \<Rightarrow> (string \<times> nat)" where
  "max_first best [] = best"
| "max_first best (kv # kvs) = max_first (if snd best < snd kv then kv else best) kvs"

definition dominant_section :: "TokenRecord list \<Rightarrow> string" where
  "dominant_section window =
     (case counter_of (filter (\<lambda>s. s \<noteq> []) (map t_section window)) of
        [] \<Rightarrow> ''Overview''
      | kv # kvs \<Rightarrow> fst (max_first kv kvs))"

definition window_content :: "TokenRecord list \<Rightarrow> string" where
  "window_content window = strip (str_join '' '' (map t_word window))"

definition make_chunk :: "nat \<Rightarrow> TokenRecord list \<Rightarrow> ChunkRecord" where
  "make_chunk chunk_index window =
     \<lparr> c_chunk_index = chunk_index,
       c_section = dominant_section window,
       c_page_start = t_page_number (hd window),
       c_page_end = t_page_number (last window),
       c_token_count = length window,
       c_content = window_content window \<rparr>"

text \<open>
  The loop of \<^verbatim>\<open>build_chunks\<close>, with its two variables \<open>cursor\<close> and \<open>chunk_index\<close>.
  The window is \<^verbatim>\<open>tokens[cursor : cursor + max_words]\<close>; a window whose joined content
  is empty after stripping emits nothing and leaves \<open>chunk_index\<close> unchanged.  The sizes
  are natural numbers: \<^verbatim>\<open>validate_batch_sizes\<close> rejects every run with
  \<^verbatim>\<open>chunk_words <= 0\<close>, \<^verbatim>\<open>overlap_words < 0\<close> or \<^verbatim>\<open>overlap_words >= chunk_words\<close>
  before any document is read.
\<close>

definition window_step :: "nat \<Rightarrow> nat \<Rightarrow> nat" where
  "window_step max_words overlap_words = max 1 (max_words - overlap_words)"

function build_chunks_loop ::
    "TokenRecord list \<Rightarrow> nat \<Rightarrow> nat \<Rightarrow> nat \<Rightarrow> nat \<Rightarrow> ChunkRecord list" where
  "build_chunks_loop tokens max_words overlap_words cursor chunk_index =
     (if cursor < length tokens then
        (let window = take max_words (drop cursor tokens) in
         if window = [] then []
         else
           (let emit = (window_content window \<noteq> []);
                emitted = (if emit then [make_chunk chunk_index window] else []);
                chunk_index' = (if emit then chunk_index + 1 else chunk_index)
            in if length tokens \<le> cursor + max_words then emitted
               else emitted @ build_chunks_loop tokens max_words overlap_words
                                (cursor + window_step max_words overlap_words) chunk_index'))
      else [])"
  by pat_completeness auto
termination
  by (relation "measure (\<lambda>(tokens, max_words, overlap_words, cursor, chunk_index).
        length tokens - cursor)") (auto simp: window_step_def)

definition build_chunks :: "TokenRecord list \<Rightarrow> nat \<Rightarrow> nat \<Rightarrow> ChunkRecord list" where
  "build_chunks tokens max_words overlap_words =
     (if tokens = [] then [] else build_chunks_loop tokens max_words overlap_words 0 1)"

text \<open>A word with at least one character that is not whitespace.\<close>

definition has_text :: "string \<Rightarrow> bool" where
  "has_text s = (\<exists>c\<in>set s. \<not> isspace c)"

section \<open>Page text normalization\<close>

text \<open>
  \<^verbatim>\<open>raw_text.replace("\r\n", "\n").replace("\r", "\n")\<close>: two passes, each from left
  to right.
\<close>

fun replace_crlf :: "string \<Rightarrow> string" where
  "replace_crlf [] = []"
| "replace_crlf [c] = [c]"
| "replace_crlf (c # d # cs) =
     (if c = CR \<and> d = LF then LF # replace_crlf cs else c # replace_crlf (d # cs))"

definition replace_cr :: "string \<Rightarrow> string" where
  "replace_cr s = map (\<lambda>c. if c = CR then LF else c) s"

text \<open>
  \<^verbatim>\<open>re.sub(r"(?<=\w)-\s*\n\s*(?=\w)", "", text)\<close>.  A match starts at a hyphen whose
  previous character is a word character; it takes the hyphen and the whole whitespace run
  after it, which must contain a line feed and must be followed by a word character (the
  lookahead cannot succeed inside the run, so the run is taken whole).  \<open>break_follows\<close>
  tests the text after the hyphen; \<open>seen\<close> records whether a line feed was read.  The
  scan goes from left to right, \<open>prev\<close> is the character before the current position in
  the original text, and a match is replaced by nothing.
\<close>

fun break_follows :: "bool \<Rightarrow> string \<Rightarrow> bool" where
  "break_follows seen [] = False"
| "break_follows seen (c # cs) =
     (if isspace c then break_follows (seen \<or> c = LF) cs else seen \<and> is_word_char c)"

definition word_before :: "char option \<Rightarrow> bool" where
  "word_before prev = (case prev of None \<Rightarrow> False | Some p \<Rightarrow> is_word_char p)"

function join_hyphenated :: "char option \<Rightarrow> string \<Rightarrow> string" where
  "join_hyphenated prev [] = []"
| "join_hyphenated prev (c # cs) =
     (if c = CHR ''-'' \<and> word_before prev \<and> break_follows False cs
      then join_hyphenated (Some (last (takeWhile isspace cs))) (dropWhile isspace cs)
      else c # join_hyphenated (Some c) cs)"
  by pat_completeness auto
termination
  by (relation "measure (\<lambda>(prev, s). length s)")
     (auto simp: le_imp_less_Suc length_dropWhile_le)

text \<open>\<^verbatim>\<open>text.split("\n")\<close>, for any separator character.\<close>

fun split_char :: "char \<Rightarrow> string \<Rightarrow> string list" where
  "split_char sep [] = [[]]"
| "split_char sep (c # cs) =
     (if c = sep then [] # split_char sep cs
      else (case split_char sep cs of [] \<Rightarrow> [[c]] | l # ls \<Rightarrow> (c # l) # ls))"

text \<open>\<^verbatim>\<open>re.sub(r"\s+", " ", line)\<close>: every maximal whitespace run becomes one space.\<close>

function collapse_ws :: "string \<Rightarrow> string" where
  "collapse_ws [] = []"
| "collapse_ws (c # cs) =
     (if isspace c then CHR '' '' # collapse_ws (dropWhile isspace cs)
      else c # collapse_ws cs)"
  by pat_completeness auto
termination
  by (relation "measure length") (auto simp: le_imp_less_Suc length_dropWhile_le)

definition clean_line :: "string \<Rightarrow> string" where
  "clean_line line = strip (collapse_ws line)"

text \<open>
  The paragraph loop of \<^verbatim>\<open>normalize_page_text\<close>, with its variables \<open>paragraphs\<close> and
  \<open>buf\<close>; the flush after the loop is the first equation.
\<close>

fun group_lines :: "string list \<Rightarrow> string list \<Rightarrow> string list \<Rightarrow> string list" where
  "group_lines paragraphs buf [] =
     (if buf \<noteq> [] then paragraphs @ [strip (str_join '' '' buf)] else paragraphs)"
| "group_lines paragraphs buf (line # lines) =
     (if line = []
      then (if buf \<noteq> [] then group_lines (paragraphs @ [strip (str_join '' '' buf)]) [] lines
            else group_lines paragraphs buf lines)
      else group_lines paragraphs (buf @ [line]) lines)"

definition normalize_page_text :: "string \<Rightarrow> string" where
  "normalize_page_text raw_text =
     (let text1 = replace_cr (replace_crlf raw_text);
          text2 = join_hyphenated None text1;
          lines = map clean_line (split_char LF text2);
          paragraphs = group_lines [] [] lines
      in str_join [LF, LF] (filter (\<lambda>paragraph. paragraph \<noteq> []) paragraphs))"

text \<open>\<^verbatim>\<open>normalized_text.split("\n\n")\<close>: separators found from left to right.\<close>

fun split_blank :: "string \<Rightarrow> string list" where
  "split_blank [] = [[]]"
| "split_blank [c] = [[c]]"
| "split_blank (c # d # cs) =
     (if c = LF \<and> d = LF then [] # split_blank cs
      else (case split_blank (d # cs) of [] \<Rightarrow> [[c]] | l # ls \<Rightarrow> (c # l) # ls))"

definition split_paragraphs :: "string \<Rightarrow> string list" where
  "split_paragraphs normalized_text =
     map strip (filter (\<lambda>part. strip part \<noteq> []) (split_blank normalized_text))"

record PageRecord =
  p_page_number :: nat
  p_text :: string
  p_paragraphs :: "string list"
  p_word_count :: nat

text \<open>
  \<^verbatim>\<open>extract_page_records\<close> after the PDF library: \<open>raw_pages\<close> holds, for each page in
  order, the text pieces of the page joined by line feeds; pages are numbered from 1.
\<close>

definition page_record :: "nat \<Rightarrow> string \<Rightarrow> PageRecord" where
  "page_record page_number raw =
     (let normalized = normalize_page_text raw
      in \<lparr> p_page_number = page_number,
           p_text = normalized,
           p_paragraphs = split_paragraphs normalized,
           p_word_count = length (str_split normalized) \<rparr>)"

definition extract_page_records :: "string list \<Rightarrow> PageRecord list" where
  "extract_page_records raw_pages =
     map (\<lambda>(i, raw). page_record (Suc i) raw) (enumerate 0 raw_pages)"

section \<open>The section tokenizer\<close>

text \<open>
  \<^verbatim>\<open>looks_like_heading\<close>.  The ratio is a quotient of two counts of at most 100 and is
  compared with 0.65; on such quotients the floating-point comparison of the source and the
  exact comparison below agree (the nearest other quotient is further than 1/2000 away,
  and 13/20 itself rounds to the literal 0.65).
\<close>

definition looks_like_heading :: "string \<Rightarrow> bool" where
  "looks_like_heading paragraph =
     (let trimmed = strip paragraph in
      if trimmed = [] \<or> 100 < length trimmed then False
      else let words = str_split trimmed in
        if 12 < length words then False
        else if last trimmed = CHR ''.'' then False
        else let letters = filter isalpha trimmed in
          if letters = [] then False
          else 0.65 < real (length (filter isupper letters)) / real (length letters))"

definition clean_heading :: "string \<Rightarrow> string" where
  "clean_heading paragraph =
     (let heading = strip (collapse_ws paragraph)
      in if heading \<noteq> [] then take 120 heading else ''Overview'')"

text \<open>
  \<^verbatim>\<open>build_token_stream\<close>: the two nested loops, with the state \<open>(tokens, current_section)\<close>.
\<close>

definition token_step ::
    "nat \<Rightarrow> TokenRecord list \<times> string \<Rightarrow> string \<Rightarrow> TokenRecord list \<times> string" where
  "token_step page_number state paragraph =
     (let (tokens, current_section) = state in
      if looks_like_heading paragraph then (tokens, clean_heading paragraph)
      else
        (let words = filter (\<lambda>w. w \<noteq> []) (str_split paragraph)
         in (tokens @ map (\<lambda>w. \<lparr> t_word = w, t_page_number = page_number,
                                    t_section = current_section \<rparr>) words,
             current_section)))"

definition build_token_stream :: "PageRecord list \<Rightarrow> TokenRecord list" where
  "build_token_stream pages =
     fst (foldl (\<lambda>state page. foldl (token_step (p_page_number page)) state (p_paragraphs page))
            ([], ''Overview'') pages)"

section \<open>Dedup keys\<close>

text \<open>
  \<^verbatim>\<open>slugify\<close>: lower-case, every maximal run of characters outside \<^verbatim>\<open>[a-z0-9]\<close>
  replaced by one hyphen, hyphens stripped at both ends, cut to 56 characters.
\<close>

definition slug_char :: "char \<Rightarrow> bool" where
  "slug_char c = (c \<in> set (ascii_lowercase @ ascii_digits))"

function hyphenate_runs :: "string \<Rightarrow> string" where
  "hyphenate_runs [] = []"
| "hyphenate_runs (c # cs) =
     (if \<not> slug_char c then CHR ''-'' # hyphenate_runs (dropWhile (\<lambda>d. \<not> slug_char d) cs)
      else c # hyphenate_runs cs)"
  by pat_completeness auto
termination
  by (relation "measure length") (auto simp: le_imp_less_Suc length_dropWhile_le)

definition strip_hyphens :: "string \<Rightarrow> string" where
  "strip_hyphens s =
     rev (dropWhile (\<lambda>c. c = CHR ''-'') (rev (dropWhile (\<lambda>c. c = CHR ''-'') s)))"

definition slugify :: "string \<Rightarrow> string" where
  "slugify val =
     (let slug = strip_hyphens (hyphenate_runs (lower val))
      in if slug \<noteq> [] then take 56 slug else ''manual'')"

text \<open>Decimal rendering of Python integers, as \<^verbatim>\<open>str\<close> and f-strings produce it.\<close>

definition digit_char :: "nat \<Rightarrow> char" where
  "digit_char d = ascii_digits ! d"

function str_nat :: "nat \<Rightarrow> string" where
  "str_nat n = (if n < 10 then [digit_char n] else str_nat (n div 10) @ [digit_char (n mod 10)])"
  by pat_completeness auto
termination
  by (relation "measure (\<lambda>n. n)") auto

definition str_int :: "int \<Rightarrow> string" where
  "str_int i = (if i < 0 then CHR ''-'' # str_nat (nat (- i)) else str_nat (nat i))"

text \<open>
  \<^verbatim>\<open>f"{doc_slug}:v{version}:p{chunk.page_start}-{chunk.page_end}:c{chunk.chunk_index}"\<close>
\<close>

definition source_ref :: "string \<Rightarrow> int \<Rightarrow> ChunkRecord \<Rightarrow> string" where
  "source_ref doc_slug version chunk =
     doc_slug @ '':v'' @ str_int version @ '':p'' @ str_nat (c_page_start chunk) @ ''-''
       @ str_nat (c_page_end chunk) @ '':c'' @ str_nat (c_chunk_index chunk)"

text \<open>
  The two path attributes the run reads, on a path written with \<^verbatim>\<open>/\<close>: \<^verbatim>\<open>Path.name\<close>
  is the last component, \<^verbatim>\<open>Path.stem\<close> is the name without its last suffix (the name
  itself when the last dot is its first or its last character, or when it has no dot).
\<close>

definition path_name :: "string \<Rightarrow> string" where
  "path_name path = rev (takeWhile (\<lambda>c. c \<noteq> CHR ''/'') (rev path))"

definition path_stem :: "string \<Rightarrow> string" where
  "path_stem path =
     (let name = path_name path;
          ext = takeWhile (\<lambda>c. c \<noteq> CHR ''.'') (rev name)
      in if CHR ''.'' \<in> set name \<and> ext \<noteq> [] \<and> length ext + 1 < length name
         then take (length name - length ext - 1) name
         else name)"

section \<open>The store\<close>

text \<open>
  The two tables of the persistent store, \<^verbatim>\<open>manual_documents\<close> and \<^verbatim>\<open>manual_chunks\<close>,
  as lists of rows.  Row ids are natural numbers; a vector is a list of reals.  The
  column \<^verbatim>\<open>updated_at\<close> (the wall clock at the time of the write) is never read by the
  program and is left out.
\<close>

record DocumentMetadata =
  m_title :: string
  m_brand :: "string option"
  m_model :: "string option"
  m_product_domain :: string

record doc_row =
  d_id :: nat
  d_source_key :: string
  d_source_filename :: string
  d_source_sha256 :: string
  d_version :: int
  d_title :: string
  d_product_domain :: string
  d_brand :: "string option"
  d_model :: "string option"
  d_page_count :: nat
  d_extracted_word_count :: nat
  d_extraction_status :: string
  d_extraction_warnings :: "string list"
  d_is_active :: bool

type_synonym embedding = "real list"

record chunk_row =
  k_product_domain :: string
  k_brand :: "string option"
  k_model :: "string option"
  k_section :: string
  k_source_ref :: string
  k_content :: string
  k_embedding :: embedding
  k_document_id :: nat
  k_chunk_index :: nat
  k_page_start :: nat
  k_page_end :: nat
  k_token_count :: nat

record store =
  manual_documents :: "doc_row list"
  manual_chunks :: "chunk_row list"

text \<open>
  The reads.  \<^verbatim>\<open>get_existing_doc_for_hash\<close> selects by \<open>source_key\<close> and
  \<open>source_sha256\<close> with \<^verbatim>\<open>limit(1)\<close>: the first matching row.  \<^verbatim>\<open>get_next_version\<close>
  takes the largest version of the source key and adds one, or returns 1.
\<close>

definition get_existing_doc_for_hash :: "store \<Rightarrow> string \<Rightarrow> string \<Rightarrow> doc_row option" where
  "get_existing_doc_for_hash supabase source_key source_sha256 =
     find (\<lambda>d. d_source_key d = source_key \<and> d_source_sha256 d = source_sha256)
       (manual_documents supabase)"

definition get_next_version :: "store \<Rightarrow> string \<Rightarrow> int" where
  "get_next_version supabase source_key =
     (case map d_version (filter (\<lambda>d. d_source_key d = source_key) (manual_documents supabase)) of
        [] \<Rightarrow> 1
      | v # vs \<Rightarrow> fold max vs v + 1)"

text \<open>The id the store gives to an inserted row: one that no row has.\<close>

definition fresh_id :: "store \<Rightarrow> nat" where
  "fresh_id supabase = Suc (fold max (map d_id (manual_documents supabase)) 0)"

text \<open>
  The writes, one constructor for each call of the program that changes the store:
  \<^verbatim>\<open>replace_chunks_for_document\<close>, \<^verbatim>\<open>update_document_row\<close>, \<^verbatim>\<open>insert_document_row\<close>,
  one batch of \<^verbatim>\<open>upsert_chunk_rows\<close>, and \<^verbatim>\<open>deactivate_other_versions\<close>.
\<close>

datatype store_op =
    DeleteChunks nat
  | UpdateDocument nat DocumentMetadata nat nat string "string list" bool
  | InsertDocument doc_row
  | UpsertChunks "chunk_row list"
  | DeactivateOthers string nat

definition update_document_row ::
    "nat \<Rightarrow> DocumentMetadata \<Rightarrow> nat \<Rightarrow> nat \<Rightarrow> string \<Rightarrow> string list \<Rightarrow> bool
      \<Rightarrow> doc_row \<Rightarrow> doc_row" where
  "update_document_row document_id metadata page_count extracted_word_count status warnings
       is_active d =
     (if d_id d = document_id
      then d\<lparr> d_title := m_title metadata,
              d_product_domain := m_product_domain metadata,
              d_brand := m_brand metadata,
              d_model := m_model metadata,
              d_page_count := page_count,
              d_extracted_word_count := extracted_word_count,
              d_extraction_status := status,
              d_extraction_warnings := warnings,
              d_is_active := is_active \<rparr>
      else d)"

definition deactivate_other_versions :: "string \<Rightarrow> nat \<Rightarrow> doc_row \<Rightarrow> doc_row" where
  "deactivate_other_versions source_key current_document_id d =
     (if d_source_key d = source_key \<and> d_id d \<noteq> current_document_id \<and> d_is_active d
      then d\<lparr> d_is_active := False \<rparr>
      else d)"

text \<open>
  An upsert with \<^verbatim>\<open>on_conflict="source_ref"\<close>: a stored row with the same \<open>source_ref\<close>
  is overwritten, otherwise the row is added.
\<close>

definition upsert_row :: "chunk_row list \<Rightarrow> chunk_row \<Rightarrow> chunk_row list" where
  "upsert_row rows r =
     (if \<exists>x\<in>set rows. k_source_ref x = k_source_ref r
      then map (\<lambda>x. if k_source_ref x = k_source_ref r then r else x) rows
      else rows @ [r])"

fun apply_op :: "store \<Rightarrow> store_op \<Rightarrow> store" where
  "apply_op s (DeleteChunks document_id) =
     s\<lparr> manual_chunks := filter (\<lambda>c. k_document_id c \<noteq> document_id) (manual_chunks s) \<rparr>"
| "apply_op s (UpdateDocument document_id metadata page_count wc status warnings is_active) =
     s\<lparr> manual_documents :=
          map (update_document_row document_id metadata page_count wc status warnings is_active)
            (manual_documents s) \<rparr>"
| "apply_op s (InsertDocument row) =
     s\<lparr> manual_documents := manual_documents s @ [row] \<rparr>"
| "apply_op s (UpsertChunks batch) =
     s\<lparr> manual_chunks := foldl upsert_row (manual_chunks s) batch \<rparr>"
| "apply_op s (DeactivateOthers source_key current_document_id) =
     s\<lparr> manual_documents :=
          map (deactivate_other_versions source_key current_document_id) (manual_documents s) \<rparr>"

definition apply_ops :: "store \<Rightarrow> store_op list \<Rightarrow> store" where
  "apply_ops s ops = foldl apply_op s ops"

section \<open>The reconciler\<close>

record ingest_args =
  a_dry_run :: bool
  a_force :: bool
  a_chunk_words :: int
  a_overlap_words :: int
  a_embed_batch_size :: int
  a_upsert_batch_size :: int

text \<open>\<^verbatim>\<open>validate_batch_sizes\<close>: the message of the error raised, if any.\<close>

definition validate_batch_sizes :: "ingest_args \<Rightarrow> string option" where
  "validate_batch_sizes args =
     (if a_embed_batch_size args \<le> 0 \<or> a_upsert_batch_size args \<le> 0
        then Some ''Batch sizes must be positive integers.''
      else if a_chunk_words args \<le> 0
        then Some ''--chunk-words must be a positive integer.''
      else if a_overlap_words args < 0
        then Some ''--overlap-words must be >= 0.''
      else if a_chunk_words args \<le> a_overlap_words args
        then Some ''--overlap-words must be smaller than --chunk-words.''
      else None)"

text \<open>
  \<^verbatim>\<open>split_batches\<close>: the slices \<^verbatim>\<open>items[i : i + batch_size]\<close> for
  \<^verbatim>\<open>i in range(0, len(items), batch_size)\<close>, for a positive batch size.
\<close>

definition split_batches :: "'a list \<Rightarrow> nat \<Rightarrow> 'a list list" where
  "split_batches items batch_size =
     map (\<lambda>i. take batch_size (drop (i * batch_size) items))
       [0 ..< (length items + batch_size - 1) div batch_size]"

text \<open>
  What the run reads of one PDF file: its path relative to the repository root (the
  \<open>source_key\<close>), the digest of its bytes, and the text of its pages as the PDF library
  returns it (\<open>None\<close> when the extraction raises).
\<close>

record source_file =
  sf_path :: string
  sf_sha256 :: string
  sf_raw_pages :: "string list option"

definition chunk_status :: "nat \<Rightarrow> nat list \<Rightarrow> nat \<Rightarrow> string" where
  "chunk_status page_count low_text_pages chunk_count =
     (if chunk_count \<le> 0 then ''failed''
      else
        (let ratio = (if 0 < page_count then real (length low_text_pages) / real page_count else 1)
         in if 0.20 < ratio \<or> chunk_count < 3 then ''partial'' else ''ready''))"

definition low_text_pages_of :: "PageRecord list \<Rightarrow> nat list" where
  "low_text_pages_of pages = map p_page_number (filter (\<lambda>page. p_word_count page < 40) pages)"

definition low_text_warnings :: "nat list \<Rightarrow> string list" where
  "low_text_warnings low_text_pages =
     (if low_text_pages \<noteq> []
      then [''low_text_pages<40: '' @ str_join '','' (map str_nat low_text_pages)]
      else [])"

text \<open>
  The embedding loop: \<open>embed_batch\<close> stands for the external generator with its retries
  (\<open>None\<close> when the last attempt raises).
\<close>

fun embed_batches ::
    "(string list \<Rightarrow> embedding list option) \<Rightarrow> string list list \<Rightarrow> embedding list option" where
  "embed_batches embed_batch [] = Some []"
| "embed_batches embed_batch (batch # batches) =
     (case embed_batch batch of
        None \<Rightarrow> None
      | Some embedded \<Rightarrow>
          (case embed_batches embed_batch batches of
             None \<Rightarrow> None
           | Some embeddings \<Rightarrow> Some (embedded @ embeddings)))"

definition chunk_payload ::
    "DocumentMetadata \<Rightarrow> string \<Rightarrow> int \<Rightarrow> nat \<Rightarrow> ChunkRecord \<times> embedding \<Rightarrow> chunk_row" where
  "chunk_payload metadata doc_slug version document_id ce =
     (let (chunk, emb) = ce in
      \<lparr> k_product_domain = m_product_domain metadata,
        k_brand = m_brand metadata,
        k_model = m_model metadata,
        k_section = c_section chunk,
        k_source_ref = source_ref doc_slug version chunk,
        k_content = c_content chunk,
        k_embedding = emb,
        k_document_id = document_id,
        k_chunk_index = c_chunk_index chunk,
        k_page_start = c_page_start chunk,
        k_page_end = c_page_end chunk,
        k_token_count = c_token_count chunk \<rparr>)"

text \<open>The row that \<^verbatim>\<open>insert_document_row\<close> sends: inactive.\<close>

definition insert_document_row ::
    "nat \<Rightarrow> string \<Rightarrow> string \<Rightarrow> string \<Rightarrow> int \<Rightarrow> DocumentMetadata \<Rightarrow> nat \<Rightarrow> nat
      \<Rightarrow> string \<Rightarrow> string list \<Rightarrow> doc_row" where
  "insert_document_row document_id source_key source_filename source_sha256 version metadata
       page_count extracted_word_count status warnings =
     \<lparr> d_id = document_id,
       d_source_key = source_key,
       d_source_filename = source_filename,
       d_source_sha256 = source_sha256,
       d_version = version,
       d_title = m_title metadata,
       d_product_domain = m_product_domain metadata,
       d_brand = m_brand metadata,
       d_model = m_model metadata,
       d_page_count = page_count,
       d_extracted_word_count = extracted_word_count,
       d_extraction_status = status,
       d_extraction_warnings = warnings,
       d_is_active = False \<rparr>"

text \<open>
  Step one of the writes: the row of an existing document is reused (its chunks deleted, the
  row updated and set inactive); otherwise a row is inserted, inactive, under the next
  version, and the store returns its id.  The result is \<open>(document_id, version, writes)\<close>.
\<close>

definition prepare_document ::
    "store \<Rightarrow> doc_row option \<Rightarrow> source_file \<Rightarrow> DocumentMetadata \<Rightarrow> nat \<Rightarrow> nat \<Rightarrow> string
      \<Rightarrow> string list \<Rightarrow> nat \<times> int \<times> store_op list" where
  "prepare_document supabase existing_doc src metadata page_count extracted_word_count status
       warnings =
     (case existing_doc of
        Some d \<Rightarrow>
          (d_id d, d_version d,
           [DeleteChunks (d_id d),
            UpdateDocument (d_id d) metadata page_count extracted_word_count status warnings False])
      | None \<Rightarrow>
          (let version = get_next_version supabase (sf_path src);
               document_id = fresh_id supabase
           in (document_id, version,
               [InsertDocument
                  (insert_document_row document_id (sf_path src) (path_name (sf_path src))
                     (sf_sha256 src) version metadata page_count extracted_word_count status
                     warnings)])))"

datatype outcome =
    Skipped
  | ParseFailed
  | DryRunProcessed
  | NoUsableChunks
  | IngestFailed
  | Committed nat

text \<open>
  The \<^verbatim>\<open>try\<close> block of the loop body, for a file that was parsed in a run with a
  client: the row is prepared; without chunks it is marked failed and nothing else is
  written; otherwise the chunk texts are embedded, the chunk rows are built and upserted,
  the other versions are deactivated and the row is set active.  An embedding that raises,
  or returns fewer vectors than there are chunks (\<^verbatim>\<open>embeddings[idx]\<close> raises), ends the
  block after the writes of the preparation.  The result is the branch taken and the writes
  sent to the store, in order; a store call that raises, or a crash, leaves the store after
  a prefix of these writes.
\<close>

definition write_document ::
    "ingest_args \<Rightarrow> (string list \<Rightarrow> embedding list option) \<Rightarrow> store \<Rightarrow> doc_row option
      \<Rightarrow> source_file \<Rightarrow> DocumentMetadata \<Rightarrow> PageRecord list \<Rightarrow> ChunkRecord list
      \<Rightarrow> outcome \<times> store_op list" where
  "write_document args embed_batch s existing_doc src metadata pages chunks =
     (let source_key = sf_path src;
          page_count = length pages;
          extracted_word_count = sum_list (map p_word_count pages);
          low_text_pages = low_text_pages_of pages;
          warnings = low_text_warnings low_text_pages;
          status = chunk_status page_count low_text_pages (length chunks);
          (document_id, version, prepared) =
             prepare_document s existing_doc src metadata page_count extracted_word_count
               status warnings
      in
      if chunks = [] then
        (NoUsableChunks,
         prepared @
           [UpdateDocument document_id metadata page_count extracted_word_count
              ''failed'' (warnings @ [''no_usable_chunks'']) False])
      else
        (let doc_slug = slugify (path_stem (sf_path src));
             chunk_texts = map c_content chunks
         in
         (case embed_batches embed_batch
                 (split_batches chunk_texts (nat (a_embed_batch_size args))) of
            None \<Rightarrow> (IngestFailed, prepared)
          | Some embeddings \<Rightarrow>
              if length embeddings < length chunks then (IngestFailed, prepared)
              else
                (let chunk_payloads =
                       map (chunk_payload metadata doc_slug version document_id)
                         (zip chunks embeddings)
                 in
                 (Committed (length chunk_payloads),
                  prepared
                    @ map UpsertChunks
                        (split_batches chunk_payloads (nat (a_upsert_batch_size args)))
                    @ [DeactivateOthers source_key document_id,
                       UpdateDocument document_id metadata page_count
                         extracted_word_count status warnings True])))))"

text \<open>
  The body of the loop of \<^verbatim>\<open>main\<close> for one file.  \<open>supabase\<close> is the client, \<open>None\<close> in a
  dry run (\<^verbatim>\<open>main\<close> creates the client exactly when \<^verbatim>\<open>dry_run\<close> is false, so the test
  \<^verbatim>\<open>if dry_run\<close> is the test \<open>supabase = None\<close>).  \<open>build_metadata\<close> stands for the
  metadata inference and \<open>embed_batch\<close> for the embedding generator with its retries.
\<close>

definition process_source ::
    "ingest_args \<Rightarrow> (source_file \<Rightarrow> PageRecord list \<Rightarrow> DocumentMetadata)
      \<Rightarrow> (string list \<Rightarrow> embedding list option) \<Rightarrow> store option \<Rightarrow> source_file
      \<Rightarrow> outcome \<times> store_op list" where
  "process_source args build_metadata embed_batch supabase src =
     (let existing_doc =
            (case supabase of
               None \<Rightarrow> None
             | Some s \<Rightarrow> get_existing_doc_for_hash s (sf_path src) (sf_sha256 src))
      in
      if supabase \<noteq> None \<and> (case existing_doc of None \<Rightarrow> False | Some d \<Rightarrow> d_is_active d)
           \<and> \<not> a_force args
      then (Skipped, [])
      else
        (case sf_raw_pages src of
           None \<Rightarrow> (ParseFailed, [])
         | Some raw_pages \<Rightarrow>
             (let pages = extract_page_records raw_pages;
                  metadata = build_metadata src pages;
                  tokens = build_token_stream pages;
                  chunks = build_chunks tokens (nat (a_chunk_words args))
                             (nat (a_overlap_words args))
              in
              (case supabase of
                 None \<Rightarrow> (DryRunProcessed, [])
               | Some s \<Rightarrow>
                   write_document args embed_batch s existing_doc src metadata pages chunks))))"

record totals =
  n_processed :: nat
  n_skipped :: nat
  n_failed :: nat
  n_documents_written :: nat
  n_chunks_written :: nat

definition count_outcome :: "totals \<Rightarrow> outcome \<Rightarrow> totals" where
  "count_outcome t oc =
     (case oc of
        Skipped \<Rightarrow> t\<lparr> n_skipped := n_skipped t + 1 \<rparr>
      | ParseFailed \<Rightarrow> t\<lparr> n_failed := n_failed t + 1 \<rparr>
      | DryRunProcessed \<Rightarrow> t\<lparr> n_processed := n_processed t + 1 \<rparr>
      | NoUsableChunks \<Rightarrow> t\<lparr> n_failed := n_failed t + 1 \<rparr>
      | IngestFailed \<Rightarrow> t\<lparr> n_failed := n_failed t + 1 \<rparr>
      | Committed n \<Rightarrow>
          t\<lparr> n_documents_written := n_documents_written t + 1,
             n_chunks_written := n_chunks_written t + n,
             n_processed := n_processed t + 1 \<rparr>)"

definition run_step ::
    "ingest_args \<Rightarrow> (source_file \<Rightarrow> PageRecord list \<Rightarrow> DocumentMetadata)
      \<Rightarrow> (string list \<Rightarrow> embedding list option) \<Rightarrow> totals \<times> store option \<Rightarrow> source_file
      \<Rightarrow> totals \<times> store option" where
  "run_step args build_metadata embed_batch state src =
     (let (t, supabase) = state;
          (oc, writes) = process_source args build_metadata embed_batch supabase src
      in (count_outcome t oc, map_option (\<lambda>s. apply_ops s writes) supabase))"

text \<open>
  \<^verbatim>\<open>main\<close> after the directory listing: \<open>pdf_files\<close> are the PDF files of the directory in
  sorted order.  The result is the error raised by the validation, or the exit code with the
  totals and the store.
\<close>

definition main ::
    "ingest_args \<Rightarrow> (source_file \<Rightarrow> PageRecord list \<Rightarrow> DocumentMetadata)
      \<Rightarrow> (string list \<Rightarrow> embedding list option) \<Rightarrow> store \<Rightarrow> source_file list
      \<Rightarrow> string + (nat \<times> totals \<times> store)" where
  "main args build_metadata embed_batch s pdf_files =
     (case validate_batch_sizes args of
        Some message \<Rightarrow> Inl message
      | None \<Rightarrow>
          (let zero = \<lparr> n_processed = 0, n_skipped = 0, n_failed = 0,
                        n_documents_written = 0, n_chunks_written = 0 \<rparr>
           in if pdf_files = [] then Inr (1, zero, s)
              else
                (let supabase = (if a_dry_run args then None else Some s);
                     (t, supabase') =
                        foldl (run_step args build_metadata embed_batch) (zero, supabase) pdf_files
                 in Inr (if n_failed t = 0 then 0 else 1, t,
                         (case supabase' of None \<Rightarrow> s | Some s' \<Rightarrow> s')))))"

section \<open>Examples and readings of the specification\<close>

text \<open>A token stream of seven one-letter words on page 1.\<close>

definition example_tokens :: "TokenRecord list" where
  "example_tokens =
     map (\<lambda>w. \<lparr> t_word = w, t_page_number = 1, t_section = ''Overview'' \<rparr>)
       [''a'', ''b'', ''c'', ''d'', ''e'', ''f'', ''g'']"

text \<open>
  The page of the end-to-end example of the specification: page 1, with the normalized text
  \<^verbatim>\<open>"SAFETY WARNING\n\nDo not operate without cover."\<close>.
\<close>

definition example_page :: PageRecord where
  "example_page =
     (let normalized = ''SAFETY WARNING'' @ [LF, LF] @ ''Do not operate without cover.''
      in \<lparr> p_page_number = 1,
           p_text = normalized,
           p_paragraphs = split_paragraphs normalized,
           p_word_count = length (str_split normalized) \<rparr>)"

text \<open>
  The specification's words "sentence terminator", read as the marks that end an English
  sentence.  The program tests the full stop only.
\<close>

definition spec_sentence_terminators :: string where
  "spec_sentence_terminators = ''.!?''"

text \<open>The dedup keys of the chunk rows that a list of writes upserts, in order.\<close>

definition upserted_refs :: "store_op list \<Rightarrow> string list" where
  "upserted_refs writes =
     concat (map (\<lambda>op. case op of UpsertChunks batch \<Rightarrow> map k_source_ref batch | _ \<Rightarrow> [])
       writes)"

fun is_deactivation :: "store_op \<Rightarrow> bool" where
  "is_deactivation (DeactivateOthers source_key current_document_id) = True"
| "is_deactivation op = False"

text \<open>The rows of a source key that are active, and the chunk rows of a document.\<close>

definition active_versions :: "store \<Rightarrow> string \<Rightarrow> doc_row list" where
  "active_versions s source_key =
     filter (\<lambda>d. d_source_key d = source_key \<and> d_is_active d) (manual_documents s)"

definition chunks_of :: "store \<Rightarrow> nat \<Rightarrow> chunk_row list" where
  "chunks_of s document_id = filter (\<lambda>c. k_document_id c = document_id) (manual_chunks s)"

text \<open>
  A store with one document, version 1 of \<^verbatim>\<open>appliance_docs/washer.pdf\<close>, active, with one
  chunk row; a run configuration; and three states of the file: changed, unchanged, and
  changed to a file without text.
\<close>

definition example_metadata :: "source_file \<Rightarrow> PageRecord list \<Rightarrow> DocumentMetadata" where
  "example_metadata src pages =
     \<lparr> m_title = ''Washer'', m_brand = None, m_model = None, m_product_domain = ''appliance'' \<rparr>"

definition example_embed :: "string list \<Rightarrow> embedding list option" where
  "example_embed texts = Some (map (\<lambda>t. []) texts)"

definition example_args :: ingest_args where
  "example_args =
     \<lparr> a_dry_run = False, a_force = False, a_chunk_words = 5, a_overlap_words = 1,
       a_embed_batch_size = 64, a_upsert_batch_size = 500 \<rparr>"

definition example_store :: store where
  "example_store =
     \<lparr> manual_documents =
         [\<lparr> d_id = 1,
            d_source_key = ''appliance_docs/washer.pdf'',
            d_source_filename = ''washer.pdf'',
            d_source_sha256 = ''aaa'',
            d_version = 1,
            d_title = ''Washer'',
            d_product_domain = ''appliance'',
            d_brand = None,
            d_model = None,
            d_page_count = 1,
            d_extracted_word_count = 7,
            d_extraction_status = ''partial'',
            d_extraction_warnings = [''low_text_pages<40: 1''],
            d_is_active = True \<rparr>],
       manual_chunks =
         [\<lparr> k_product_domain = ''appliance'',
            k_brand = None,
            k_model = None,
            k_section = ''SAFETY WARNING'',
            k_source_ref = ''washer:v1:p1-1:c1'',
            k_content = ''Do not operate without cover.'',
            k_embedding = [],
            k_document_id = 1,
            k_chunk_index = 1,
            k_page_start = 1,
            k_page_end = 1,
            k_token_count = 5 \<rparr>] \<rparr>"

definition example_source_changed :: source_file where
  "example_source_changed =
     \<lparr> sf_path = ''appliance_docs/washer.pdf'',
       sf_sha256 = ''bbb'',
       sf_raw_pages = Some [''SAFETY WARNING'' @ [LF, LF] @ ''Do not operate without the cover.''] \<rparr>"

definition example_source_unchanged :: source_file where
  "example_source_unchanged =
     \<lparr> sf_path = ''appliance_docs/washer.pdf'',
       sf_sha256 = ''aaa'',
       sf_raw_pages = Some [''SAFETY WARNING'' @ [LF, LF] @ ''Do not operate without cover.''] \<rparr>"

definition example_source_blank :: source_file where
  "example_source_blank =
     \<lparr> sf_path = ''appliance_docs/washer.pdf'',
       sf_sha256 = ''ccc'',
       sf_raw_pages = Some [[LF]] \<rparr>"

text \<open>Reading a decimal rendering back: the inverse of \<open>str_nat\<close>.\<close>

definition digit_value :: "char \<Rightarrow> nat" where
  "digit_value c = length (takeWhile (\<lambda>d. d \<noteq> c) ascii_digits)"

definition nat_of_str :: "string \<Rightarrow> nat" where
  "nat_of_str s = foldl (\<lambda>a c. 10 * a + digit_value c) 0 s"

text \<open>The file of the stored version, unchanged in its bytes, read as a page without text.\<close>

definition example_source_blank_same :: source_file where
  "example_source_blank_same =
     \<lparr> sf_path = ''appliance_docs/washer.pdf'',
       sf_sha256 = ''aaa'',
       sf_raw_pages = Some [[LF]] \<rparr>"

section \<open>The chunk windower\<close>

declare build_chunks_loop.simps [simp del]

lemma dropWhile_all_iff: "(\<forall>x\<in>set (dropWhile P s). P x) \<longleftrightarrow> (\<forall>x\<in>set s. P x)"
  by (induction s) auto

lemma strip_Nil_iff: "strip s = [] \<longleftrightarrow> (\<forall>c\<in>set s. isspace c)"
  by (simp add: strip_def dropWhile_eq_Nil_conv dropWhile_all_iff)

lemma set_str_join_mem: "w \<in> set ws \<Longrightarrow> set w \<subseteq> set (str_join sep ws)"
  by (induction sep ws rule: str_join.induct) auto

lemma window_content_nonempty:
  assumes "window \<noteq> []" "\<forall>t\<in>set window. has_text (t_word t)"
  shows "window_content window \<noteq> []"
proof -
  obtain t where t: "t \<in> set window" using assms(1) by (cases window) auto
  then obtain c where c: "c \<in> set (t_word t)" "\<not> isspace c"
    using assms(2) by (auto simp: has_text_def)
  have "set (t_word t) \<subseteq> set (str_join '' '' (map t_word window))"
    using t by (intro set_str_join_mem) auto
  with c show ?thesis
    by (auto simp: window_content_def strip_Nil_iff)
qed

lemma loop_indices:
  "map c_chunk_index (build_chunks_loop ts W O' cur ci) =
     [ci ..< ci + length (build_chunks_loop ts W O' cur ci)]"
proof (induction ts W O' cur ci rule: build_chunks_loop.induct)
  case (1 tokens max_words overlap_words cursor chunk_index)
  show ?case
    apply (subst (1 2) build_chunks_loop.simps)
    using 1
    apply (auto simp: Let_def make_chunk_def upt_rec[of chunk_index] simp del: upt_Suc)
    done
qed

lemma loop_token_count:
  "c \<in> set (build_chunks_loop ts W O' cur ci) \<Longrightarrow> c_token_count c \<le> W"
proof (induction ts W O' cur ci rule: build_chunks_loop.induct)
  case (1 tokens max_words overlap_words cursor chunk_index)
  from "1.prems" show ?case
    apply (subst (asm) build_chunks_loop.simps)
    using "1.IH"
    apply (auto simp: Let_def make_chunk_def split: if_splits)
    done
qed

text \<open>Rounded-up division on the naturals, one window at a time.\<close>

lemma cdiv_small: "1 \<le> m \<Longrightarrow> m \<le> s \<Longrightarrow> (m + s - 1) div s = (1::nat)"
proof -
  assume a: "1 \<le> m" "m \<le> s"
  have "m + s - 1 = (m - 1) + s" using a by simp
  then have "(m + s - 1) div s = ((m - 1) + s) div s" by (rule arg_cong)
  also have "\<dots> = (m - 1) div s + 1" using a by (rule_tac div_add_self2) simp
  also have "(m - 1) div s = 0" using a by simp
  finally show ?thesis by simp
qed

lemma cdiv_step: "0 < s \<Longrightarrow> 0 < r \<Longrightarrow> (r + s + s - 1) div s = 1 + (r + s - 1) div (s::nat)"
proof -
  assume a: "0 < s" "0 < r"
  have "r + s + s - 1 = (r + s - 1) + s" using a by simp
  then have "(r + s + s - 1) div s = ((r + s - 1) + s) div s" by (rule arg_cong)
  also have "\<dots> = (r + s - 1) div s + 1" using a(1) by (rule_tac div_add_self2) simp
  finally show ?thesis by simp
qed

lemma loop_length:
  assumes "O' < W" and "\<forall>t\<in>set ts. has_text (t_word t)" and "cur < length ts"
  shows "length (build_chunks_loop ts W O' cur ci) =
           (max (length ts - cur - O') 1 + (W - O') - 1) div (W - O')"
  using assms
proof (induction ts W O' cur ci rule: build_chunks_loop.induct)
  case (1 tokens max_words overlap_words cursor chunk_index)
  let ?window = "take max_words (drop cursor tokens)"
  let ?s = "max_words - overlap_words"
  have w: "?window \<noteq> []" using "1.prems" by auto
  have "set ?window \<subseteq> set tokens"
    by (meson set_drop_subset set_take_subset subset_trans)
  then have emit: "window_content ?window \<noteq> []"
    using w "1.prems"(2) by (intro window_content_nonempty) auto
  have step: "window_step max_words overlap_words = ?s"
    using "1.prems"(1) by (simp add: window_step_def)
  show ?case
  proof (cases "length tokens \<le> cursor + max_words")
    case True
    have "length (build_chunks_loop tokens max_words overlap_words cursor chunk_index) = 1"
      by (subst build_chunks_loop.simps) (use "1.prems" w emit True in \<open>simp add: Let_def\<close>)
    moreover have "(max (length tokens - cursor - overlap_words) 1 + ?s - 1) div ?s = 1"
      by (rule cdiv_small) (use True "1.prems" in auto)
    ultimately show ?thesis by simp
  next
    case False
    have lt: "cursor + ?s < length tokens" using False "1.prems" by auto
    have IH: "length (build_chunks_loop tokens max_words overlap_words (cursor + ?s) (chunk_index + 1)) =
        (max (length tokens - (cursor + ?s) - overlap_words) 1 + ?s - 1) div ?s"
      using "1.IH"[OF "1.prems"(3) refl w refl refl refl False] "1.prems" emit lt step by simp
    have unf: "length (build_chunks_loop tokens max_words overlap_words cursor chunk_index) =
       1 + length (build_chunks_loop tokens max_words overlap_words (cursor + ?s) (chunk_index + 1))"
      by (subst build_chunks_loop.simps) (use "1.prems" w emit False step in \<open>simp add: Let_def\<close>)
    define r where "r = length tokens - cursor - max_words"
    have r: "0 < r" "length tokens - (cursor + ?s) - overlap_words = r"
      "length tokens - cursor - overlap_words = r + ?s"
      using False "1.prems" by (auto simp: r_def)
    have "0 < ?s" using "1.prems"(1) by simp
    from cdiv_step[OF this r(1)]
    have "(r + ?s + ?s - 1) div ?s = 1 + (r + ?s - 1) div ?s" .
    moreover have "max (r + ?s) 1 = r + ?s" "max r 1 = r" using r(1) by auto
    ultimately show ?thesis unfolding unf IH r by (simp only: add.assoc)
  qed
qed

lemma ceiling_as_cdiv:
  assumes "0 < s" "0 < m"
  shows "\<lceil>real m / real s\<rceil> = int ((m + s - 1) div s)"
proof (rule ceiling_unique)
  define k where "k = (m + s - 1) div s"
  have lo: "k * s \<le> m + s - 1"
    unfolding k_def by (rule div_times_less_eq_dividend)
  have hi: "m + s - 1 < s + k * s"
    unfolding k_def using assms(1) by (rule dividend_less_div_times)
  have "0 < k" using assms hi by (cases k) auto
  then have "(k - 1) * s < m" using lo assms by (cases k) auto
  then have "real ((k - 1) * s) < real m" by (simp only: of_nat_less_iff)
  then have "(real k - 1) * real s < real m" using \<open>0 < k\<close> by (simp add: of_nat_diff)
  then have "real k - 1 < real m / real s" using assms(1) by (simp add: pos_less_divide_eq)
  then show "of_int (int ((m + s - 1) div s)) - 1 < real m / real s" by (simp add: k_def)
  have "m \<le> k * s" using hi assms by simp
  then have "real m \<le> real (k * s)" by (simp only: of_nat_le_iff)
  then have "real m / real s \<le> real k" using assms(1) by (simp add: pos_divide_le_eq)
  then show "real m / real s \<le> of_int (int ((m + s - 1) div s))" by (simp add: k_def)
qed

text \<open>
  C3 (amended).  With \<open>0 \<le> overlap_words < max_words\<close>: for a token stream in which every
  token's word has a character that is not whitespace (so that no window has blank content),
  the windower emits no chunk for the empty stream and exactly
  \<open>ceil (max (L - O) 1 / (W - O))\<close> chunks for a stream of length \<open>L > 0\<close>; for every stream,
  the emitted \<open>chunk_index\<close> values are \<open>1, 2, ..., N\<close> in this order, and every emitted chunk
  has \<open>token_count \<le> max_words\<close>.
\<close>

theorem build_chunks_count_indices_bound:
  assumes "overlap_words < max_words"
  shows "((\<forall>t\<in>set tokens. has_text (t_word t)) \<longrightarrow>
            int (length (build_chunks tokens max_words overlap_words)) =
              (if length tokens = 0 then 0
               else \<lceil>real_of_int (max (int (length tokens) - int overlap_words) 1)
                      / real_of_int (int max_words - int overlap_words)\<rceil>))
       \<and> map c_chunk_index (build_chunks tokens max_words overlap_words) =
             [1 ..< Suc (length (build_chunks tokens max_words overlap_words))]
       \<and> (\<forall>c\<in>set (build_chunks tokens max_words overlap_words).
             c_token_count c \<le> max_words)"
proof (intro conjI impI)
  assume words: "\<forall>t\<in>set tokens. has_text (t_word t)"
  show "int (length (build_chunks tokens max_words overlap_words)) =
          (if length tokens = 0 then 0
           else \<lceil>real_of_int (max (int (length tokens) - int overlap_words) 1)
                  / real_of_int (int max_words - int overlap_words)\<rceil>)"
  proof (cases "tokens = []")
    case True
    then show ?thesis by (simp add: build_chunks_def)
  next
    case False
    let ?m = "max (length tokens - overlap_words) 1"
    let ?s = "max_words - overlap_words"
    have len: "length (build_chunks tokens max_words overlap_words) = (?m + ?s - 1) div ?s"
      using loop_length[OF assms words, of 0 1] False by (simp add: build_chunks_def)
    have ceil: "\<lceil>real ?m / real ?s\<rceil> = int ((?m + ?s - 1) div ?s)"
      using assms by (intro ceiling_as_cdiv) auto
    have "max (int (length tokens) - int overlap_words) 1 = int ?m"
      by linarith
    then have m: "real_of_int (max (int (length tokens) - int overlap_words) 1) = real ?m"
      by (simp only: of_int_of_nat_eq)
    have "int max_words - int overlap_words = int ?s"
      using assms by linarith
    then have s: "real_of_int (int max_words - int overlap_words) = real ?s"
      by (simp only: of_int_of_nat_eq)
    have "int (length (build_chunks tokens max_words overlap_words)) = \<lceil>real ?m / real ?s\<rceil>"
      by (simp only: len ceil)
    moreover have "length tokens \<noteq> 0" using False by simp
    ultimately show ?thesis by (simp only: m s if_False)
  qed
next
  show "map c_chunk_index (build_chunks tokens max_words overlap_words) =
          [1 ..< Suc (length (build_chunks tokens max_words overlap_words))]"
    using loop_indices[of tokens max_words overlap_words 0 1]
    by (simp add: build_chunks_def del: upt_Suc)
next
  show "\<forall>c\<in>set (build_chunks tokens max_words overlap_words). c_token_count c \<le> max_words"
    using loop_token_count[of _ tokens max_words overlap_words 0 1]
    by (auto simp: build_chunks_def split: if_splits)
qed

text \<open>
  The general claim C3 fails on a stream whose only token has the empty word: the window's
  content is blank, nothing is emitted, and the formula gives one chunk.
\<close>

theorem build_chunks_blank_word_counterexample:
  "int (length (build_chunks [\<lparr> t_word = '''', t_page_number = 1, t_section = ''Overview'' \<rparr>] 1 0))
     \<noteq> \<lceil>real_of_int (max (int (length [\<lparr> t_word = '''', t_page_number = 1,
                                          t_section = ''Overview'' \<rparr>]) - int 0) 1)
          / real_of_int (int 1 - int 0)\<rceil>"
  by code_simp

theorem build_chunks_count_indices_bound_witness:
  "(1::nat) < 3
   \<and> length (build_chunks example_tokens 3 1) = 3
   \<and> map c_chunk_index (build_chunks example_tokens 3 1) = [1 ..< Suc 3]"
proof -
  have words: "\<forall>t\<in>set example_tokens. has_text (t_word t)"
    by (simp add: example_tokens_def has_text_def isspace_def whitespace_chars_def)
  have len: "length example_tokens = 7"
    by (simp add: example_tokens_def)
  have "(1::nat) < 3" by simp
  from build_chunks_count_indices_bound[OF this, of example_tokens] words len
  have "length (build_chunks example_tokens 3 1) = 3"
    and "map c_chunk_index (build_chunks example_tokens 3 1) =
           [1 ..< Suc (length (build_chunks example_tokens 3 1))]"
    by (simp_all del: upt_Suc)
  then show ?thesis by (simp del: upt_Suc)
qed

section \<open>Heading detection\<close>

text \<open>
  C7 as stated fails: a paragraph that ends with an exclamation mark, a sentence terminator,
  is classified as a heading.
\<close>

theorem looks_like_heading_terminator_counterexample:
  "looks_like_heading ''STOP!'' \<and> last (strip ''STOP!'') \<in> set spec_sentence_terminators"
  by code_simp

text \<open>
  C7 (amended).  A paragraph is classified as a heading if and only if it is non-empty after
  trimming, has at most 100 characters and at most 12 words, does not end with a full stop
  (no other terminator is tested), has at least one letter, and the ratio of upper-case
  letters among its letters exceeds 0.65; "INSTALLATION GUIDE" is a heading and
  "Please install the unit according to the instructions." is not.
\<close>

theorem looks_like_heading_iff:
  "(looks_like_heading paragraph \<longleftrightarrow>
      strip paragraph \<noteq> []
      \<and> length (strip paragraph) \<le> 100
      \<and> length (str_split (strip paragraph)) \<le> 12
      \<and> last (strip paragraph) \<noteq> CHR ''.''
      \<and> filter isalpha (strip paragraph) \<noteq> []
      \<and> 0.65 < real (length (filter isupper (filter isalpha (strip paragraph))))
                 / real (length (filter isalpha (strip paragraph))))
   \<and> looks_like_heading ''INSTALLATION GUIDE''
   \<and> \<not> looks_like_heading ''Please install the unit according to the instructions.''"
proof (intro conjI)
  show "looks_like_heading paragraph \<longleftrightarrow>
      strip paragraph \<noteq> []
      \<and> length (strip paragraph) \<le> 100
      \<and> length (str_split (strip paragraph)) \<le> 12
      \<and> last (strip paragraph) \<noteq> CHR ''.''
      \<and> filter isalpha (strip paragraph) \<noteq> []
      \<and> 0.65 < real (length (filter isupper (filter isalpha (strip paragraph))))
                 / real (length (filter isalpha (strip paragraph)))"
    unfolding looks_like_heading_def Let_def
    by (auto simp: not_less)
  show "looks_like_heading ''INSTALLATION GUIDE''"
    by code_simp
  show "\<not> looks_like_heading ''Please install the unit according to the instructions.''"
    by code_simp
qed

section \<open>The end-to-end example\<close>

text \<open>
  C8 as stated fails: the chunk has five tokens, not four, and its section is the heading as
  written, \<open>SAFETY WARNING\<close>, not \<open>Safety Warning\<close>.
\<close>

theorem example_chunk_counterexample:
  "map c_token_count (build_chunks (build_token_stream [example_page]) 5 1) = [5]
   \<and> map c_section (build_chunks (build_token_stream [example_page]) 5 1) = [''SAFETY WARNING'']
   \<and> \<not> (map c_token_count (build_chunks (build_token_stream [example_page]) 5 1) = [4]
         \<and> map c_section (build_chunks (build_token_stream [example_page]) 5 1)
             = [''Safety Warning''])"
  by code_simp

text \<open>
  C8 (amended).  For the single page whose normalized text is "SAFETY WARNING", a paragraph
  break and "Do not operate without cover.", tokenizing and windowing with \<open>max_words = 5\<close>
  and \<open>overlap_words = 1\<close> produces exactly one chunk, of 5 tokens with the content
  "Do not operate without cover.", tagged section "SAFETY WARNING", with
  \<open>page_start = page_end = 1\<close>.
\<close>

theorem example_chunk:
  "build_chunks (build_token_stream [example_page]) 5 1 =
     [\<lparr> c_chunk_index = 1, c_section = ''SAFETY WARNING'', c_page_start = 1, c_page_end = 1,
        c_token_count = 5, c_content = ''Do not operate without cover.'' \<rparr>]"
  by code_simp

section \<open>Dedup keys of different sources\<close>

text \<open>
  C10.  The dedup key is not injective across source keys: two files of one directory whose
  stems agree after lower-casing and hyphenation, the same file name in two directories,
  and two stems that agree on the first 56 characters of their slugs each give, for every
  version and every chunk, the same \<open>source_ref\<close>.
\<close>

theorem source_ref_not_injective:
  "''appliance_docs/My Manual.pdf'' \<noteq> ''appliance_docs/my-manual.pdf''
   \<and> (\<forall>version chunk.
         source_ref (slugify (path_stem ''appliance_docs/My Manual.pdf'')) version chunk =
         source_ref (slugify (path_stem ''appliance_docs/my-manual.pdf'')) version chunk)
   \<and> ''docs_a/manual.pdf'' \<noteq> ''docs_b/manual.pdf''
   \<and> (\<forall>version chunk.
         source_ref (slugify (path_stem ''docs_a/manual.pdf'')) version chunk =
         source_ref (slugify (path_stem ''docs_b/manual.pdf'')) version chunk)
   \<and> ''docs/Whirlpool WRF555SDFZ Refrigerator Use and Care Guide - Revision A.pdf''
       \<noteq> ''docs/Whirlpool WRF555SDFZ Refrigerator Use and Care Guide - Revision B.pdf''
   \<and> (\<forall>version chunk.
         source_ref (slugify (path_stem
           ''docs/Whirlpool WRF555SDFZ Refrigerator Use and Care Guide - Revision A.pdf''))
           version chunk =
         source_ref (slugify (path_stem
           ''docs/Whirlpool WRF555SDFZ Refrigerator Use and Care Guide - Revision B.pdf''))
           version chunk)"
proof -
  have a: "slugify (path_stem ''appliance_docs/My Manual.pdf'') =
           slugify (path_stem ''appliance_docs/my-manual.pdf'')"
    by code_simp
  have b: "slugify (path_stem ''docs_a/manual.pdf'') = slugify (path_stem ''docs_b/manual.pdf'')"
    by code_simp
  have c: "slugify (path_stem
             ''docs/Whirlpool WRF555SDFZ Refrigerator Use and Care Guide - Revision A.pdf'') =
           slugify (path_stem
             ''docs/Whirlpool WRF555SDFZ Refrigerator Use and Care Guide - Revision B.pdf'')"
    by code_simp
  show ?thesis
    by (simp only: a b c) simp
qed

section \<open>The store and the writes of one source\<close>

lemma apply_ops_append: "apply_ops s (a @ b) = apply_ops (apply_ops s a) b"
  by (simp add: apply_ops_def)

lemma apply_ops_Nil: "apply_ops s [] = s"
  by (simp add: apply_ops_def)

lemma apply_ops_Cons: "apply_ops s (x # xs) = apply_ops (apply_op s x) xs"
  by (simp add: apply_ops_def)

lemma docs_apply_upserts:
  "manual_documents (apply_ops s (map UpsertChunks bs)) = manual_documents s"
  by (induction bs arbitrary: s) (simp_all add: apply_ops_Nil apply_ops_Cons)

lemma chunks_apply_upserts:
  "manual_chunks (apply_ops s (map UpsertChunks bs)) =
     foldl upsert_row (manual_chunks s) (concat bs)"
  by (induction bs arbitrary: s) (simp_all add: apply_ops_Nil apply_ops_Cons)

text \<open>The branches of \<open>write_document\<close>, once the preparation is named.\<close>

lemma write_document_unfold:
  assumes "prepare_document s ex src md (length pages) (sum_list (map p_word_count pages))
             (chunk_status (length pages) (low_text_pages_of pages) (length chunks))
             (low_text_warnings (low_text_pages_of pages)) = (document_id, version, prepared)"
  shows "write_document args eb s ex src md pages chunks =
     (if chunks = [] then
        (NoUsableChunks,
         prepared @
           [UpdateDocument document_id md (length pages) (sum_list (map p_word_count pages))
              ''failed'' (low_text_warnings (low_text_pages_of pages) @ [''no_usable_chunks''])
              False])
      else
         (case embed_batches eb
                 (split_batches (map c_content chunks) (nat (a_embed_batch_size args))) of
            None \<Rightarrow> (IngestFailed, prepared)
          | Some embeddings \<Rightarrow>
              if length embeddings < length chunks then (IngestFailed, prepared)
              else
                 (Committed (length chunks),
                  prepared
                    @ map UpsertChunks
                        (split_batches
                           (map (chunk_payload md (slugify (path_stem (sf_path src))) version
                                   document_id) (zip chunks embeddings))
                           (nat (a_upsert_batch_size args)))
                    @ [DeactivateOthers (sf_path src) document_id,
                       UpdateDocument document_id md (length pages)
                         (sum_list (map p_word_count pages))
                         (chunk_status (length pages) (low_text_pages_of pages) (length chunks))
                         (low_text_warnings (low_text_pages_of pages)) True])))"
proof -
  have "write_document args eb s ex src md pages chunks =
     (if chunks = [] then
        (NoUsableChunks,
         prepared @
           [UpdateDocument document_id md (length pages) (sum_list (map p_word_count pages))
              ''failed'' (low_text_warnings (low_text_pages_of pages) @ [''no_usable_chunks''])
              False])
      else
         (case embed_batches eb
                 (split_batches (map c_content chunks) (nat (a_embed_batch_size args))) of
            None \<Rightarrow> (IngestFailed, prepared)
          | Some embeddings \<Rightarrow>
              if length embeddings < length chunks then (IngestFailed, prepared)
              else
                 (Committed (length (map (chunk_payload md (slugify (path_stem (sf_path src)))
                                            version document_id) (zip chunks embeddings))),
                  prepared
                    @ map UpsertChunks
                        (split_batches
                           (map (chunk_payload md (slugify (path_stem (sf_path src))) version
                                   document_id) (zip chunks embeddings))
                           (nat (a_upsert_batch_size args)))
                    @ [DeactivateOthers (sf_path src) document_id,
                       UpdateDocument document_id md (length pages)
                         (sum_list (map p_word_count pages))
                         (chunk_status (length pages) (low_text_pages_of pages) (length chunks))
                         (low_text_warnings (low_text_pages_of pages)) True])))"
    unfolding write_document_def Let_def using assms by (simp only: prod.case)
  then show ?thesis
    by (auto split: option.splits simp: min_def)
qed

text \<open>
  A committed run of \<open>write_document\<close>: its preparation, its embeddings and its writes.
\<close>

lemma write_document_Committed:
  assumes "write_document args eb s ex src md pages chunks = (Committed n, ws)"
  obtains document_id version prepared embeddings pc wc status warnings where
    "prepare_document s ex src md pc wc status warnings = (document_id, version, prepared)"
    "chunks \<noteq> []"
    "embed_batches eb (split_batches (map c_content chunks) (nat (a_embed_batch_size args)))
       = Some embeddings"
    "length chunks \<le> length embeddings"
    "n = length chunks"
    "ws = prepared
          @ map UpsertChunks (split_batches
                (map (chunk_payload md (slugify (path_stem (sf_path src))) version document_id)
                   (zip chunks embeddings)) (nat (a_upsert_batch_size args)))
          @ [DeactivateOthers (sf_path src) document_id,
             UpdateDocument document_id md pc wc status warnings True]"
proof -
  obtain document_id version prepared where
    p: "prepare_document s ex src md (length pages) (sum_list (map p_word_count pages))
             (chunk_status (length pages) (low_text_pages_of pages) (length chunks))
             (low_text_warnings (low_text_pages_of pages)) = (document_id, version, prepared)"
    using prod_cases3 by blast
  note w = write_document_unfold[OF p, of args eb]
  show ?thesis
  proof (cases "chunks = []")
    case True
    with assms w show ?thesis by simp
  next
    case False
    show ?thesis
    proof (cases "embed_batches eb
                    (split_batches (map c_content chunks) (nat (a_embed_batch_size args)))")
      case None
      with assms w False show ?thesis by simp
    next
      case (Some embeddings)
      show ?thesis
      proof (cases "length embeddings < length chunks")
        case True
        with assms w False Some show ?thesis by simp
      next
        case le: False
        have "n = length chunks" and "ws = prepared
          @ map UpsertChunks (split_batches
                (map (chunk_payload md (slugify (path_stem (sf_path src))) version document_id)
                   (zip chunks embeddings)) (nat (a_upsert_batch_size args)))
          @ [DeactivateOthers (sf_path src) document_id,
             UpdateDocument document_id md (length pages) (sum_list (map p_word_count pages))
               (chunk_status (length pages) (low_text_pages_of pages) (length chunks))
               (low_text_warnings (low_text_pages_of pages)) True]"
          using assms w False Some le by auto
        then show ?thesis using that[OF p False Some] le by simp
      qed
    qed
  qed
qed

lemma process_source_Some:
  "process_source args bm eb (Some s) src =
     (case get_existing_doc_for_hash s (sf_path src) (sf_sha256 src) of
        Some d \<Rightarrow>
          if d_is_active d \<and> \<not> a_force args then (Skipped, [])
          else (case sf_raw_pages src of
                  None \<Rightarrow> (ParseFailed, [])
                | Some raw_pages \<Rightarrow>
                    write_document args eb s (Some d) src
                      (bm src (extract_page_records raw_pages)) (extract_page_records raw_pages)
                      (build_chunks (build_token_stream (extract_page_records raw_pages))
                         (nat (a_chunk_words args)) (nat (a_overlap_words args))))
      | None \<Rightarrow>
          (case sf_raw_pages src of
             None \<Rightarrow> (ParseFailed, [])
           | Some raw_pages \<Rightarrow>
               write_document args eb s None src
                 (bm src (extract_page_records raw_pages)) (extract_page_records raw_pages)
                 (build_chunks (build_token_stream (extract_page_records raw_pages))
                    (nat (a_chunk_words args)) (nat (a_overlap_words args)))))"
  unfolding process_source_def Let_def
  by (simp split: option.splits)

lemma write_document_not_Skipped:
  "fst (write_document args eb s ex src md pages chunks) \<notin> {Skipped, ParseFailed, DryRunProcessed}"
proof -
  obtain document_id version prepared where
    p: "prepare_document s ex src md (length pages) (sum_list (map p_word_count pages))
             (chunk_status (length pages) (low_text_pages_of pages) (length chunks))
             (low_text_warnings (low_text_pages_of pages)) = (document_id, version, prepared)"
    using prod_cases3 by blast
  show ?thesis
    unfolding write_document_unfold[OF p] by (simp split: option.splits)
qed

lemma process_source_Committed:
  assumes "process_source args bm eb (Some s) src = (Committed n, ws)"
  obtains raw_pages where
    "sf_raw_pages src = Some raw_pages"
    "write_document args eb s (get_existing_doc_for_hash s (sf_path src) (sf_sha256 src)) src
       (bm src (extract_page_records raw_pages)) (extract_page_records raw_pages)
       (build_chunks (build_token_stream (extract_page_records raw_pages))
          (nat (a_chunk_words args)) (nat (a_overlap_words args))) = (Committed n, ws)"
  using assms unfolding process_source_Some
  by (auto split: option.splits if_splits)

section \<open>Exactly one active version\<close>

lemma fold_max_upper: "x \<in> set xs \<Longrightarrow> x \<le> fold max xs (a::nat)"
proof (induction xs arbitrary: a)
  case Nil
  then show ?case by simp
next
  case (Cons y ys)
  have mono: "b \<le> fold max zs (b::nat)" for b zs
    by (induction zs arbitrary: b) (auto intro: order_trans[OF max.cobounded2])
  show ?case
  proof (cases "x = y")
    case True
    have "y \<le> max y a" by simp
    also have "\<dots> \<le> fold max ys (max y a)" by (rule mono)
    finally show ?thesis using True by simp
  next
    case False
    with Cons show ?thesis by simp
  qed
qed

lemma fresh_id_fresh: "fresh_id s \<notin> d_id ` set (manual_documents s)"
proof
  assume "fresh_id s \<in> d_id ` set (manual_documents s)"
  then have "fresh_id s \<in> set (map d_id (manual_documents s))" by simp
  from fold_max_upper[OF this, of 0] show False
    by (simp add: fresh_id_def)
qed

lemma update_document_row_id [simp]:
  "d_id (update_document_row i md pc wc st w a d) = d_id d"
  by (simp add: update_document_row_def)

lemma update_document_row_key [simp]:
  "d_source_key (update_document_row i md pc wc st w a d) = d_source_key d"
  by (simp add: update_document_row_def)

lemma update_document_row_sha [simp]:
  "d_source_sha256 (update_document_row i md pc wc st w a d) = d_source_sha256 d"
  by (simp add: update_document_row_def)

lemma update_document_row_version [simp]:
  "d_version (update_document_row i md pc wc st w a d) = d_version d"
  by (simp add: update_document_row_def)

lemma update_document_row_active:
  "d_is_active (update_document_row i md pc wc st w a d) = (if d_id d = i then a else d_is_active d)"
  by (simp add: update_document_row_def)

lemma update_document_row_other: "d_id d \<noteq> i \<Longrightarrow> update_document_row i md pc wc st w a d = d"
  by (simp add: update_document_row_def)

lemma deactivate_other_versions_id [simp]:
  "d_id (deactivate_other_versions k i d) = d_id d"
  by (simp add: deactivate_other_versions_def)

lemma deactivate_other_versions_key [simp]:
  "d_source_key (deactivate_other_versions k i d) = d_source_key d"
  by (simp add: deactivate_other_versions_def)

lemma deactivate_other_versions_sha [simp]:
  "d_source_sha256 (deactivate_other_versions k i d) = d_source_sha256 d"
  by (simp add: deactivate_other_versions_def)

lemma deactivate_other_versions_version [simp]:
  "d_version (deactivate_other_versions k i d) = d_version d"
  by (simp add: deactivate_other_versions_def)

lemma deactivate_other_versions_active:
  "d_is_active (deactivate_other_versions k i d) =
     (d_is_active d \<and> (d_source_key d = k \<longrightarrow> d_id d = i))"
  by (auto simp: deactivate_other_versions_def)

lemma deactivate_other_versions_other_key:
  "d_source_key d \<noteq> k \<Longrightarrow> deactivate_other_versions k i d = d"
  by (simp add: deactivate_other_versions_def)

lemma count_by_distinct_id:
  "distinct (map f xs) \<Longrightarrow> x \<in> set xs \<Longrightarrow> length (filter (\<lambda>y. f y = f x) xs) = 1"
proof (induction xs)
  case Nil
  then show ?case by simp
next
  case (Cons y ys)
  show ?case
  proof (cases "f y = f x")
    case True
    then have "f x \<notin> f ` set ys" using Cons.prems(1) by simp
    then have "filter (\<lambda>y. f y = f x) ys = []"
      unfolding filter_empty_conv by (metis imageI)
    with True show ?thesis by simp
  next
    case False
    then have "x \<in> set ys" using Cons.prems(2) by auto
    with Cons False show ?thesis by simp
  qed
qed

text \<open>
  The swap on the rows: after the other versions of the key are deactivated and the row
  \<open>cur\<close> is set active, the active rows of the key are the rows with the id \<open>cur\<close>.
\<close>

lemma active_rows_after_swap:
  assumes "\<forall>d\<in>set docs. d_id d = cur \<longrightarrow> d_source_key d = k"
  shows "length (filter (\<lambda>d. d_source_key d = k \<and> d_is_active d)
            (map (update_document_row cur md pc wc st w True)
               (map (deactivate_other_versions k cur) docs)))
         = length (filter (\<lambda>d. d_id d = cur) docs)"
  using assms
  by (induction docs)
     (auto simp: update_document_row_active deactivate_other_versions_active)

text \<open>The store after the preparation of the row.\<close>

lemma get_existing_doc_for_hash_Some:
  assumes "get_existing_doc_for_hash s k h = Some d"
  shows "d \<in> set (manual_documents s)" "d_source_key d = k" "d_source_sha256 d = h"
  using assms unfolding get_existing_doc_for_hash_def
  by (auto simp: find_Some_iff)

lemma prepare_document_docs:
  assumes "distinct (map d_id (manual_documents s))"
    and "prepare_document s (get_existing_doc_for_hash s (sf_path src) (sf_sha256 src)) src
           md pc wc st w = (document_id, version, prepared)"
  shows "distinct (map d_id (manual_documents (apply_ops s prepared)))"
    and "\<exists>d\<in>set (manual_documents (apply_ops s prepared)). d_id d = document_id"
    and "\<forall>d\<in>set (manual_documents (apply_ops s prepared)).
           d_id d = document_id \<longrightarrow> d_source_key d = sf_path src \<and> \<not> d_is_active d"
proof -
  let ?ex = "get_existing_doc_for_hash s (sf_path src) (sf_sha256 src)"
  have "distinct (map d_id (manual_documents (apply_ops s prepared)))
      \<and> (\<exists>d\<in>set (manual_documents (apply_ops s prepared)). d_id d = document_id)
      \<and> (\<forall>d\<in>set (manual_documents (apply_ops s prepared)).
           d_id d = document_id \<longrightarrow> d_source_key d = sf_path src \<and> \<not> d_is_active d)"
  proof (cases ?ex)
    case None
    then have p: "document_id = fresh_id s"
      "prepared = [InsertDocument
                  (insert_document_row (fresh_id s) (sf_path src) (path_name (sf_path src))
                     (sf_sha256 src) version md pc wc st w)]"
      using assms(2) by (auto simp: prepare_document_def Let_def)
    have fresh: "d_id x \<noteq> fresh_id s" if "x \<in> set (manual_documents s)" for x
      using fresh_id_fresh[of s] that by (metis imageI)
    show ?thesis
      unfolding p using assms(1) fresh fresh_id_fresh[of s]
      by (auto simp: apply_ops_Cons apply_ops_Nil insert_document_row_def)
  next
    case (Some d)
    then have p: "document_id = d_id d"
      "prepared = [DeleteChunks (d_id d), UpdateDocument (d_id d) md pc wc st w False]"
      using assms(2) by (auto simp: prepare_document_def)
    have d: "d \<in> set (manual_documents s)" "d_source_key d = sf_path src"
      using get_existing_doc_for_hash_Some[OF Some] by simp_all
    have ids: "map d_id (map (update_document_row (d_id d) md pc wc st w False)
                 (manual_documents s)) = map d_id (manual_documents s)"
      by simp
    have uniq: "d_source_key x = sf_path src"
      if "x \<in> set (manual_documents s)" "d_id x = d_id d" for x
    proof -
      have "x = d" using assms(1) that d(1) by (meson distinct_map inj_onD)
      then show ?thesis using d(2) by simp
    qed
    show ?thesis
      unfolding p using assms(1) d uniq
      by (auto simp: apply_ops_Cons apply_ops_Nil ids update_document_row_active
          simp del: map_map)
  qed
  then show "distinct (map d_id (manual_documents (apply_ops s prepared)))"
    and "\<exists>d\<in>set (manual_documents (apply_ops s prepared)). d_id d = document_id"
    and "\<forall>d\<in>set (manual_documents (apply_ops s prepared)).
           d_id d = document_id \<longrightarrow> d_source_key d = sf_path src \<and> \<not> d_is_active d"
    by blast+
qed

text \<open>
  C1.  From a store whose row ids are distinct, a run for one source that reaches the
  activation step ends with the two writes "deactivate the other active versions of the
  source key" and "set the current row active", and leaves exactly one row of that source
  key active.
\<close>

theorem one_active_version_after_commit:
  assumes "distinct (map d_id (manual_documents s))"
    and "process_source args build_metadata embed_batch (Some s) src = (Committed n, writes)"
  shows "length (filter (\<lambda>d. d_source_key d = sf_path src \<and> d_is_active d)
            (manual_documents (apply_ops s writes))) = 1
       \<and> (\<exists>before document_id md pc wc st w.
             writes = before @ [DeactivateOthers (sf_path src) document_id,
                                UpdateDocument document_id md pc wc st w True])"
proof -
  from assms(2) obtain raw_pages where
    wd: "write_document args embed_batch s
           (get_existing_doc_for_hash s (sf_path src) (sf_sha256 src)) src
           (build_metadata src (extract_page_records raw_pages)) (extract_page_records raw_pages)
           (build_chunks (build_token_stream (extract_page_records raw_pages))
              (nat (a_chunk_words args)) (nat (a_overlap_words args))) = (Committed n, writes)"
    by (rule process_source_Committed)
  from wd obtain document_id version prepared batches md pc wc st w where
    p: "prepare_document s (get_existing_doc_for_hash s (sf_path src) (sf_sha256 src)) src
          md pc wc st w = (document_id, version, prepared)"
    and ws: "writes = prepared @ map UpsertChunks batches
               @ [DeactivateOthers (sf_path src) document_id,
                  UpdateDocument document_id md pc wc st w True]"
    by (rule write_document_Committed) blast
  let ?s1 = "apply_ops s prepared"
  let ?docs = "manual_documents ?s1"
  note prep = prepare_document_docs[OF assms(1) p]
  have docs: "manual_documents (apply_ops s writes) =
      map (update_document_row document_id md pc wc st w True)
        (map (deactivate_other_versions (sf_path src) document_id) ?docs)"
    unfolding ws
    by (simp add: apply_ops_append docs_apply_upserts apply_ops_Cons apply_ops_Nil
        del: map_map)
  from prep(2) obtain d where d: "d \<in> set ?docs" "d_id d = document_id" by blast
  have "length (filter (\<lambda>d. d_source_key d = sf_path src \<and> d_is_active d)
            (manual_documents (apply_ops s writes)))
        = length (filter (\<lambda>x. d_id x = document_id) ?docs)"
    unfolding docs using prep(3) by (intro active_rows_after_swap) blast
  also have "\<dots> = 1"
    using count_by_distinct_id[OF prep(1) d(1)] d(2) by simp
  finally show ?thesis using ws by auto
qed

section \<open>Skipping an unchanged, active document\<close>

lemma find_map_preserving:
  assumes "\<And>x. P (f x) = P x"
  shows "find P (map f xs) = map_option f (find P xs)"
  by (induction xs) (simp_all add: assms)

lemma find_append_new: "find P xs = None \<Longrightarrow> P x \<Longrightarrow> find P (xs @ [x]) = Some x"
  by (induction xs) (auto split: if_splits)

lemma docs_after_commit:
  "manual_documents
     (apply_ops s (prepared @ map UpsertChunks batches
                     @ [DeactivateOthers k i, UpdateDocument i md pc wc st w a]))
   = map (update_document_row i md pc wc st w a)
       (map (deactivate_other_versions k i) (manual_documents (apply_ops s prepared)))"
  by (simp add: apply_ops_append docs_apply_upserts apply_ops_Cons apply_ops_Nil del: map_map)

text \<open>
  After a committed run the lookup by source key and digest finds the row of the run, with
  the version of the run, active.
\<close>

lemma lookup_after_commit:
  assumes p: "prepare_document s (get_existing_doc_for_hash s (sf_path src) (sf_sha256 src)) src
                md pc wc st w = (document_id, version, prepared)"
  shows "\<exists>d. get_existing_doc_for_hash
               (apply_ops s (prepared @ map UpsertChunks batches
                     @ [DeactivateOthers (sf_path src) document_id,
                        UpdateDocument document_id md pc wc st w True]))
               (sf_path src) (sf_sha256 src) = Some d
             \<and> d_id d = document_id \<and> d_version d = version \<and> d_is_active d"
proof -
  let ?P = "\<lambda>d. d_source_key d = sf_path src \<and> d_source_sha256 d = sf_sha256 src"
  let ?f = "\<lambda>d. update_document_row document_id md pc wc st w True
                  (deactivate_other_versions (sf_path src) document_id d)"
  let ?s1 = "apply_ops s prepared"
  have look: "get_existing_doc_for_hash
               (apply_ops s (prepared @ map UpsertChunks batches
                     @ [DeactivateOthers (sf_path src) document_id,
                        UpdateDocument document_id md pc wc st w True]))
               (sf_path src) (sf_sha256 src) = map_option ?f (find ?P (manual_documents ?s1))"
    unfolding get_existing_doc_for_hash_def docs_after_commit
    by (simp add: find_map_preserving[symmetric] del: map_map) (simp add: comp_def)
  have "\<exists>d. find ?P (manual_documents ?s1) = Some d \<and> d_id d = document_id
           \<and> d_version d = version"
  proof (cases "get_existing_doc_for_hash s (sf_path src) (sf_sha256 src)")
    case None
    then have q: "document_id = fresh_id s" "version = get_next_version s (sf_path src)"
      "\<exists>row. prepared = [InsertDocument row] \<and> d_id row = document_id
          \<and> d_version row = version \<and> ?P row"
      using p by (auto simp: prepare_document_def Let_def insert_document_row_def)
    then obtain row where row: "prepared = [InsertDocument row]" "d_id row = document_id"
      "d_version row = version" "?P row" by blast
    have "find ?P (manual_documents s) = None"
      using None by (simp add: get_existing_doc_for_hash_def)
    then have "find ?P (manual_documents s @ [row]) = Some row"
      using row(4) by (intro find_append_new) simp_all
    then show ?thesis
      using row by (simp add: apply_ops_Cons apply_ops_Nil)
  next
    case (Some d)
    then have q: "document_id = d_id d" "version = d_version d"
      "prepared = [DeleteChunks (d_id d), UpdateDocument (d_id d) md pc wc st w False]"
      using p by (auto simp: prepare_document_def)
    have "find ?P (map (update_document_row (d_id d) md pc wc st w False) (manual_documents s))
            = map_option (update_document_row (d_id d) md pc wc st w False)
                (find ?P (manual_documents s))"
      by (rule find_map_preserving) simp
    also have "find ?P (manual_documents s) = Some d"
      using Some by (simp add: get_existing_doc_for_hash_def)
    finally show ?thesis
      unfolding q by (simp add: apply_ops_Cons apply_ops_Nil)
  qed
  then obtain d where d: "find ?P (manual_documents ?s1) = Some d" "d_id d = document_id"
    "d_version d = version" by blast
  show ?thesis
    unfolding look d(1) using d(2,3)
    by (simp add: update_document_row_active)
qed

lemma process_source_commit_lookup:
  assumes "process_source args bm eb (Some s) src = (Committed n, writes)"
  obtains d version where
    "get_existing_doc_for_hash (apply_ops s writes) (sf_path src) (sf_sha256 src) = Some d"
    "d_is_active d" "d_version d = version"
    "\<exists>raw_pages embeddings.
       sf_raw_pages src = Some raw_pages \<and>
       upserted_refs writes =
         upserted_refs (map UpsertChunks (split_batches
            (map (chunk_payload (bm src (extract_page_records raw_pages))
                    (slugify (path_stem (sf_path src))) version (d_id d))
               (zip (build_chunks (build_token_stream (extract_page_records raw_pages))
                       (nat (a_chunk_words args)) (nat (a_overlap_words args))) embeddings))
            (nat (a_upsert_batch_size args))))
       \<and> n = length (build_chunks (build_token_stream (extract_page_records raw_pages))
                       (nat (a_chunk_words args)) (nat (a_overlap_words args)))
       \<and> n \<le> length embeddings \<and> 0 < n"
proof -
  from assms obtain raw_pages where raw: "sf_raw_pages src = Some raw_pages" and
    wd: "write_document args eb s
           (get_existing_doc_for_hash s (sf_path src) (sf_sha256 src)) src
           (bm src (extract_page_records raw_pages)) (extract_page_records raw_pages)
           (build_chunks (build_token_stream (extract_page_records raw_pages))
              (nat (a_chunk_words args)) (nat (a_overlap_words args))) = (Committed n, writes)"
    by (rule process_source_Committed)
  let ?chunks = "build_chunks (build_token_stream (extract_page_records raw_pages))
              (nat (a_chunk_words args)) (nat (a_overlap_words args))"
  from wd obtain document_id version prepared embeddings pc wc st w where
    p: "prepare_document s (get_existing_doc_for_hash s (sf_path src) (sf_sha256 src)) src
          (bm src (extract_page_records raw_pages)) pc wc st w = (document_id, version, prepared)"
    and ne: "?chunks \<noteq> []" and le: "length ?chunks \<le> length embeddings"
    and n: "n = length ?chunks"
    and ws: "writes = prepared @ map UpsertChunks (split_batches
                (map (chunk_payload (bm src (extract_page_records raw_pages))
                        (slugify (path_stem (sf_path src))) version document_id)
                   (zip ?chunks embeddings)) (nat (a_upsert_batch_size args)))
               @ [DeactivateOthers (sf_path src) document_id,
                  UpdateDocument document_id (bm src (extract_page_records raw_pages))
                    pc wc st w True]"
    by (rule write_document_Committed)
  from lookup_after_commit[OF p] ws obtain d where
    d: "get_existing_doc_for_hash (apply_ops s writes) (sf_path src) (sf_sha256 src) = Some d"
      "d_id d = document_id" "d_version d = version" "d_is_active d"
    by blast
  have no_refs: "upserted_refs prepared = []"
    using p by (auto simp: prepare_document_def Let_def upserted_refs_def split: option.splits)
  have "upserted_refs writes =
         upserted_refs (map UpsertChunks (split_batches
            (map (chunk_payload (bm src (extract_page_records raw_pages))
                    (slugify (path_stem (sf_path src))) version (d_id d))
               (zip ?chunks embeddings))
            (nat (a_upsert_batch_size args))))"
    unfolding ws d(2) using no_refs by (simp add: upserted_refs_def)
  then show ?thesis
    using that[OF d(1) d(4) d(3)] raw n le ne by blast
qed

text \<open>
  C5.  In a run with a client: if the lookup by source key and digest finds a row, the row is
  active and reprocessing is not forced, the source is skipped: no write is sent, the store
  is unchanged, and only the count of skipped sources grows.  Hence, after a run that
  committed a source, a second run without force on the same bytes writes nothing.
\<close>

theorem unchanged_active_source_is_skipped:
  "(get_existing_doc_for_hash s (sf_path src) (sf_sha256 src) = Some d \<and> d_is_active d
      \<and> \<not> a_force args
    \<longrightarrow> process_source args build_metadata embed_batch (Some s) src = (Skipped, [])
        \<and> run_step args build_metadata embed_batch (t, Some s) src
            = (t\<lparr> n_skipped := n_skipped t + 1 \<rparr>, Some s))
   \<and> (process_source args1 build_metadata1 embed_batch1 (Some s) src = (Committed n, writes)
        \<and> \<not> a_force args
      \<longrightarrow> process_source args build_metadata embed_batch (Some (apply_ops s writes)) src
            = (Skipped, [])
        \<and> run_step args build_metadata embed_batch (t, Some (apply_ops s writes)) src
            = (t\<lparr> n_skipped := n_skipped t + 1 \<rparr>, Some (apply_ops s writes)))"
proof -
  have skip: "process_source args build_metadata embed_batch (Some s') src = (Skipped, [])
        \<and> run_step args build_metadata embed_batch (t, Some s') src
            = (t\<lparr> n_skipped := n_skipped t + 1 \<rparr>, Some s')"
    if "get_existing_doc_for_hash s' (sf_path src) (sf_sha256 src) = Some d'" "d_is_active d'"
      "\<not> a_force args" for s' d'
  proof -
    have "process_source args build_metadata embed_batch (Some s') src = (Skipped, [])"
      unfolding process_source_Some using that by simp
    then show ?thesis
      by (simp add: run_step_def count_outcome_def apply_ops_Nil)
  qed
  show ?thesis
  proof (intro conjI impI)
    assume "get_existing_doc_for_hash s (sf_path src) (sf_sha256 src) = Some d \<and> d_is_active d
      \<and> \<not> a_force args"
    then show "process_source args build_metadata embed_batch (Some s) src = (Skipped, [])"
      and "run_step args build_metadata embed_batch (t, Some s) src
            = (t\<lparr> n_skipped := n_skipped t + 1 \<rparr>, Some s)"
      using skip by blast+
  next
    assume a: "process_source args1 build_metadata1 embed_batch1 (Some s) src = (Committed n, writes)
        \<and> \<not> a_force args"
    then obtain d' where
      "get_existing_doc_for_hash (apply_ops s writes) (sf_path src) (sf_sha256 src) = Some d'"
      "d_is_active d'"
      using process_source_commit_lookup[of args1 build_metadata1 embed_batch1 s src n writes]
      by blast
    with a show "process_source args build_metadata embed_batch (Some (apply_ops s writes)) src
            = (Skipped, [])"
      and "run_step args build_metadata embed_batch (t, Some (apply_ops s writes)) src
            = (t\<lparr> n_skipped := n_skipped t + 1 \<rparr>, Some (apply_ops s writes))"
      using skip by blast+
  qed
qed

section \<open>Dedup keys of a forced second run\<close>

lemma concat_split_batches_take:
  "concat (map (\<lambda>i. take n (drop (i * n) xs)) [0 ..< k]) = take (k * n) xs"
proof (induction k)
  case 0
  then show ?case by simp
next
  case (Suc k)
  have "take (k * n) xs @ take n (drop (k * n) xs) = take (k * n + n) xs"
    by (simp add: take_add)
  with Suc show ?case by (simp add: add.commute)
qed

lemma concat_split_batches: "0 < n \<Longrightarrow> concat (split_batches xs n) = xs"
proof -
  assume n: "0 < n"
  have "length xs \<le> (length xs + n - 1) div n * n"
  proof -
    have "length xs + n - 1 < n + (length xs + n - 1) div n * n"
      using n by (rule dividend_less_div_times)
    then show ?thesis using n by simp
  qed
  then show ?thesis
    by (simp add: split_batches_def concat_split_batches_take)
qed



lemma upserted_refs_simps [simp]:
  "upserted_refs [] = []"
  "upserted_refs (DeleteChunks i # ws) = upserted_refs ws"
  "upserted_refs (UpdateDocument i md pc wc st w a # ws) = upserted_refs ws"
  "upserted_refs (InsertDocument row # ws) = upserted_refs ws"
  "upserted_refs (DeactivateOthers k i # ws) = upserted_refs ws"
  by (simp_all add: upserted_refs_def)

lemma payload_refs:
  "length cs \<le> length es \<Longrightarrow>
   map k_source_ref (map (chunk_payload md slug v i) (zip cs es)) = map (source_ref slug v) cs"
proof (induction cs arbitrary: es)
  case Nil
  then show ?case by simp
next
  case (Cons c cs)
  then obtain e es' where "es = e # es'" by (cases es) auto
  with Cons show ?case by (simp add: chunk_payload_def)
qed


lemma valid_upsert_batch_size:
  "validate_batch_sizes args = None \<Longrightarrow> 0 < nat (a_upsert_batch_size args)"
  by (auto simp: validate_batch_sizes_def split: if_splits)


section \<open>A source without chunks\<close>

lemma filter_other_ids_update:
  "filter (\<lambda>d. d_id d \<noteq> i) (map (update_document_row i md pc wc st w a) docs)
     = filter (\<lambda>d. d_id d \<noteq> i) docs"
  by (induction docs) (auto simp: update_document_row_def)

lemma update_document_row_fields:
  "d_id d = i \<Longrightarrow>
     d_extraction_status (update_document_row i md pc wc st w a d) = st
     \<and> d_extraction_warnings (update_document_row i md pc wc st w a d) = w
     \<and> d_is_active (update_document_row i md pc wc st w a d) = a"
  by (simp add: update_document_row_def)

lemma prepare_document_others:
  assumes "prepare_document s (get_existing_doc_for_hash s (sf_path src) (sf_sha256 src)) src
             md pc wc st w = (document_id, version, prepared)"
  shows "\<exists>d\<in>set (manual_documents (apply_ops s prepared)). d_id d = document_id"
    and "filter (\<lambda>d. d_id d \<noteq> document_id) (manual_documents (apply_ops s prepared))
           = filter (\<lambda>d. d_id d \<noteq> document_id) (manual_documents s)"
    and "\<forall>op\<in>set prepared. \<not> is_deactivation op"
proof -
  have "(\<exists>d\<in>set (manual_documents (apply_ops s prepared)). d_id d = document_id)
      \<and> filter (\<lambda>d. d_id d \<noteq> document_id) (manual_documents (apply_ops s prepared))
           = filter (\<lambda>d. d_id d \<noteq> document_id) (manual_documents s)
      \<and> (\<forall>op\<in>set prepared. \<not> is_deactivation op)"
  proof (cases "get_existing_doc_for_hash s (sf_path src) (sf_sha256 src)")
    case None
    then obtain row where row: "prepared = [InsertDocument row]" "d_id row = document_id"
      using assms by (auto simp: prepare_document_def Let_def insert_document_row_def)
    then show ?thesis
      by (simp add: apply_ops_Cons apply_ops_Nil)
  next
    case (Some d)
    then have q: "document_id = d_id d"
      "prepared = [DeleteChunks (d_id d), UpdateDocument (d_id d) md pc wc st w False]"
      using assms by (auto simp: prepare_document_def)
    have "d \<in> set (manual_documents s)"
      using get_existing_doc_for_hash_Some(1)[OF Some] .
    then have "\<exists>x\<in>set (manual_documents s). d_id x = d_id d" by blast
    then show ?thesis
      unfolding q
      by (simp add: apply_ops_Cons apply_ops_Nil filter_other_ids_update image_iff)
  qed
  then show "\<exists>d\<in>set (manual_documents (apply_ops s prepared)). d_id d = document_id"
    and "filter (\<lambda>d. d_id d \<noteq> document_id) (manual_documents (apply_ops s prepared))
           = filter (\<lambda>d. d_id d \<noteq> document_id) (manual_documents s)"
    and "\<forall>op\<in>set prepared. \<not> is_deactivation op"
    by blast+
qed

text \<open>
  C4 (amended).  In a run with a client, a source that is parsed (not skipped) and yields no
  chunk: the writes end with the update that marks its row failed with the warning
  \<open>no_usable_chunks\<close> and inactive; no write deactivates other versions; in the store after
  the writes the row exists, is failed, carries the warning last and is inactive, and every
  row with another id is as it was before, so a previously active other version of the
  source key is still active.  Nothing is said of the row itself when it was the active
  version before a forced run: it is reused and ends inactive.
\<close>

theorem no_usable_chunks_marks_failed:
  assumes "sf_raw_pages src = Some raw_pages"
    and "build_chunks (build_token_stream (extract_page_records raw_pages))
           (nat (a_chunk_words args)) (nat (a_overlap_words args)) = []"
    and "fst (process_source args build_metadata embed_batch (Some s) src) \<noteq> Skipped"
  shows "\<exists>prepared document_id md pc wc w.
           process_source args build_metadata embed_batch (Some s) src =
             (NoUsableChunks,
              prepared @ [UpdateDocument document_id md pc wc ''failed''
                            (w @ [''no_usable_chunks'']) False])
         \<and> (\<forall>op\<in>set (snd (process_source args build_metadata embed_batch (Some s) src)).
               \<not> is_deactivation op)
         \<and> (\<exists>d\<in>set (manual_documents (apply_ops s
                 (snd (process_source args build_metadata embed_batch (Some s) src)))).
               d_id d = document_id)
         \<and> (\<forall>d\<in>set (manual_documents (apply_ops s
                 (snd (process_source args build_metadata embed_batch (Some s) src)))).
               d_id d = document_id \<longrightarrow>
                 d_extraction_status d = ''failed''
                 \<and> d_extraction_warnings d = w @ [''no_usable_chunks'']
                 \<and> \<not> d_is_active d)
         \<and> filter (\<lambda>d. d_id d \<noteq> document_id) (manual_documents (apply_ops s
                 (snd (process_source args build_metadata embed_batch (Some s) src))))
             = filter (\<lambda>d. d_id d \<noteq> document_id) (manual_documents s)"
proof -
  let ?ex = "get_existing_doc_for_hash s (sf_path src) (sf_sha256 src)"
  let ?pages = "extract_page_records raw_pages"
  let ?md = "build_metadata src ?pages"
  let ?pc = "length ?pages"
  let ?wc = "sum_list (map p_word_count ?pages)"
  let ?w = "low_text_warnings (low_text_pages_of ?pages)"
  have ps: "process_source args build_metadata embed_batch (Some s) src =
      write_document args embed_batch s ?ex src ?md ?pages []"
    using assms unfolding process_source_Some
    by (auto split: option.splits if_splits)
  obtain document_id version prepared where
    p: "prepare_document s ?ex src ?md ?pc ?wc
          (chunk_status ?pc (low_text_pages_of ?pages) (length ([]::ChunkRecord list))) ?w
        = (document_id, version, prepared)"
    using prod_cases3 by blast
  have writes: "process_source args build_metadata embed_batch (Some s) src =
      (NoUsableChunks,
       prepared @ [UpdateDocument document_id ?md ?pc ?wc ''failed''
                     (?w @ [''no_usable_chunks'']) False])"
    unfolding ps write_document_unfold[OF p] by simp
  note prep = prepare_document_others[OF p]
  have docs: "manual_documents (apply_ops s
      (prepared @ [UpdateDocument document_id ?md ?pc ?wc ''failed''
                     (?w @ [''no_usable_chunks'']) False]))
     = map (update_document_row document_id ?md ?pc ?wc ''failed''
              (?w @ [''no_usable_chunks'']) False) (manual_documents (apply_ops s prepared))"
    by (simp add: apply_ops_append apply_ops_Cons apply_ops_Nil)
  have a: "\<forall>op\<in>set (snd (process_source args build_metadata embed_batch (Some s) src)).
               \<not> is_deactivation op"
    unfolding writes using prep(3) by simp
  have b: "\<exists>d\<in>set (manual_documents (apply_ops s
                 (snd (process_source args build_metadata embed_batch (Some s) src)))).
               d_id d = document_id"
    unfolding writes snd_conv docs using prep(1) by (simp add: image_iff)
  have c: "\<forall>d\<in>set (manual_documents (apply_ops s
                 (snd (process_source args build_metadata embed_batch (Some s) src)))).
               d_id d = document_id \<longrightarrow>
                 d_extraction_status d = ''failed''
                 \<and> d_extraction_warnings d = ?w @ [''no_usable_chunks'']
                 \<and> \<not> d_is_active d"
    unfolding writes snd_conv docs by (auto simp: update_document_row_fields)
  have d: "filter (\<lambda>d. d_id d \<noteq> document_id) (manual_documents (apply_ops s
                 (snd (process_source args build_metadata embed_batch (Some s) src))))
             = filter (\<lambda>d. d_id d \<noteq> document_id) (manual_documents s)"
    unfolding writes snd_conv docs filter_other_ids_update using prep(2) .
  show ?thesis
    by (rule exI[of _ prepared], rule exI[of _ document_id], rule exI[of _ ?md],
        rule exI[of _ ?pc], rule exI[of _ ?wc], rule exI[of _ ?w])
       (intro conjI writes a b c d)
qed

section \<open>The theorems of the reconciler on the example store\<close>

theorem one_active_version_after_commit_witness:
  "distinct (map d_id (manual_documents example_store))
   \<and> fst (process_source example_args example_metadata example_embed (Some example_store)
             example_source_changed) = Committed 2
   \<and> length (filter (\<lambda>d. d_source_key d = sf_path example_source_changed \<and> d_is_active d)
        (manual_documents (apply_ops example_store
           (snd (process_source example_args example_metadata example_embed
                   (Some example_store) example_source_changed))))) = 1"
proof -
  have h1: "distinct (map d_id (manual_documents example_store))"
    by code_simp
  have f: "fst (process_source example_args example_metadata example_embed (Some example_store)
             example_source_changed) = Committed 2"
    by code_simp
  then have h2: "process_source example_args example_metadata example_embed (Some example_store)
             example_source_changed
      = (Committed 2, snd (process_source example_args example_metadata example_embed
                   (Some example_store) example_source_changed))"
    by (simp add: prod_eq_iff)
  from one_active_version_after_commit[OF h1 h2] h1 f show ?thesis
    by blast
qed

theorem unchanged_active_source_is_skipped_witness:
  "get_existing_doc_for_hash example_store (sf_path example_source_unchanged)
       (sf_sha256 example_source_unchanged) = Some (hd (manual_documents example_store))
   \<and> d_is_active (hd (manual_documents example_store))
   \<and> \<not> a_force example_args
   \<and> process_source example_args example_metadata example_embed (Some example_store)
        example_source_unchanged = (Skipped, [])
   \<and> fst (process_source example_args example_metadata example_embed (Some example_store)
             example_source_changed) = Committed 2
   \<and> process_source example_args example_metadata example_embed
        (Some (apply_ops example_store
           (snd (process_source example_args example_metadata example_embed
                   (Some example_store) example_source_changed))))
        example_source_changed = (Skipped, [])"
proof -
  have h1: "get_existing_doc_for_hash example_store (sf_path example_source_unchanged)
       (sf_sha256 example_source_unchanged) = Some (hd (manual_documents example_store))
     \<and> d_is_active (hd (manual_documents example_store))
     \<and> \<not> a_force example_args"
    by code_simp
  have f: "fst (process_source example_args example_metadata example_embed (Some example_store)
             example_source_changed) = Committed 2"
    by code_simp
  then have h2: "process_source example_args example_metadata example_embed (Some example_store)
             example_source_changed
      = (Committed 2, snd (process_source example_args example_metadata example_embed
                   (Some example_store) example_source_changed))
     \<and> \<not> a_force example_args"
    using h1 by (simp add: prod_eq_iff)
  have a: "process_source example_args example_metadata example_embed (Some example_store)
        example_source_unchanged = (Skipped, [])"
    using unchanged_active_source_is_skipped[where s = example_store
        and src = example_source_unchanged and d = "hd (manual_documents example_store)"
        and args = example_args and build_metadata = example_metadata
        and embed_batch = example_embed] h1
    by blast
  have b: "process_source example_args example_metadata example_embed
        (Some (apply_ops example_store
           (snd (process_source example_args example_metadata example_embed
                   (Some example_store) example_source_changed))))
        example_source_changed = (Skipped, [])"
    using unchanged_active_source_is_skipped[where s = example_store
        and src = example_source_changed and args = example_args
        and build_metadata = example_metadata and embed_batch = example_embed
        and ?args1.0 = example_args and ?build_metadata1.0 = example_metadata
        and ?embed_batch1.0 = example_embed and n = 2
        and writes = "snd (process_source example_args example_metadata example_embed
                   (Some example_store) example_source_changed)"] h2
    by blast
  from h1 f a b show ?thesis by blast
qed


theorem no_usable_chunks_marks_failed_witness:
  "sf_raw_pages example_source_blank = Some [[LF]]
   \<and> build_chunks (build_token_stream (extract_page_records [[LF]]))
        (nat (a_chunk_words example_args)) (nat (a_overlap_words example_args)) = []
   \<and> fst (process_source example_args example_metadata example_embed (Some example_store)
             example_source_blank) = NoUsableChunks
   \<and> map d_id (active_versions (apply_ops example_store
        (snd (process_source example_args example_metadata example_embed (Some example_store)
                example_source_blank))) ''appliance_docs/washer.pdf'') = [1]
   \<and> map d_extraction_status (manual_documents (apply_ops example_store
        (snd (process_source example_args example_metadata example_embed (Some example_store)
                example_source_blank)))) = [''partial'', ''failed'']"
proof -
  let ?run = "process_source example_args example_metadata example_embed (Some example_store)
             example_source_blank"
  have h1: "sf_raw_pages example_source_blank = Some [[LF]]"
    by code_simp
  have h2: "build_chunks (build_token_stream (extract_page_records [[LF]]))
        (nat (a_chunk_words example_args)) (nat (a_overlap_words example_args)) = []"
    by code_simp
  have h3: "fst ?run \<noteq> Skipped"
    by code_simp
  from no_usable_chunks_marks_failed[OF h1 h2 h3]
  have a: "fst ?run = NoUsableChunks"
    by auto
  have b: "map d_id (active_versions (apply_ops example_store (snd ?run))
             ''appliance_docs/washer.pdf'') = [1]"
    by code_simp
  have c: "map d_extraction_status (manual_documents (apply_ops example_store (snd ?run)))
             = [''partial'', ''failed'']"
    by code_simp
  from h1 h2 a b c show ?thesis by blast
qed

section \<open>The order of the writes of a committed run\<close>

declare str_nat.simps [simp del]

lemma digit_value_digit_char: "d < 10 \<Longrightarrow> digit_value (digit_char d) = d"
proof -
  assume "d < 10"
  then have "d = 0 \<or> d = 1 \<or> d = 2 \<or> d = 3 \<or> d = 4 \<or> d = 5 \<or> d = 6 \<or> d = 7 \<or> d = 8 \<or> d = 9"
    by arith
  then show ?thesis
    by (elim disjE) (simp_all add: digit_value_def digit_char_def ascii_digits_def)
qed

lemma digit_char_digit: "d < 10 \<Longrightarrow> digit_char d \<in> set ascii_digits"
  unfolding digit_char_def by (rule nth_mem) (simp add: ascii_digits_def)

lemma nat_of_str_snoc: "nat_of_str (s @ [c]) = 10 * nat_of_str s + digit_value c"
  by (simp add: nat_of_str_def)

lemma nat_of_str_str_nat: "nat_of_str (str_nat n) = n"
proof (induction n rule: str_nat.induct)
  case (1 n)
  show ?case
  proof (cases "n < 10")
    case True
    then show ?thesis
      by (subst str_nat.simps) (simp add: nat_of_str_def digit_value_digit_char)
  next
    case False
    then have "nat_of_str (str_nat n) = 10 * nat_of_str (str_nat (n div 10))
                 + digit_value (digit_char (n mod 10))"
      by (subst str_nat.simps) (simp add: nat_of_str_snoc)
    then show ?thesis
      using 1 False by (simp add: digit_value_digit_char)
  qed
qed

lemma str_nat_inj: "str_nat a = str_nat b \<Longrightarrow> a = b"
  by (metis nat_of_str_str_nat)

lemma str_nat_digits: "c \<in> set (str_nat n) \<Longrightarrow> c \<in> set ascii_digits"
proof (induction n rule: str_nat.induct)
  case (1 n)
  show ?case
  proof (cases "n < 10")
    case True
    with "1.prems" show ?thesis
      by (subst (asm) str_nat.simps) (simp add: digit_char_digit)
  next
    case False
    with "1.prems" have "c \<in> set (str_nat (n div 10)) \<or> c = digit_char (n mod 10)"
      by (subst (asm) str_nat.simps) auto
    then show ?thesis
      using "1.IH" False by (auto simp: digit_char_digit)
  qed
qed

lemma field_unique:
  assumes "\<forall>c\<in>set a. P c" "\<forall>c\<in>set a'. P c" "\<not> P x" "\<not> P x'"
    and "a @ x # r = a' @ x' # r'"
  shows "a = a' \<and> r = r'"
proof -
  have "takeWhile P (a @ x # r) = a" "takeWhile P (a' @ x' # r') = a'"
    using assms(1-4) by (simp_all add: takeWhile_append2)
  then have "a = a'" using assms(5) by simp
  with assms(5) show ?thesis by simp
qed

lemma source_ref_inj_index:
  assumes "source_ref slug v c1 = source_ref slug v c2"
  shows "c_chunk_index c1 = c_chunk_index c2"
proof -
  let ?P = "\<lambda>c. c \<in> set ascii_digits"
  have eq: "str_nat (c_page_start c1) @ CHR ''-'' #
              (str_nat (c_page_end c1) @ CHR '':'' # CHR ''c'' # str_nat (c_chunk_index c1))
          = str_nat (c_page_start c2) @ CHR ''-'' #
              (str_nat (c_page_end c2) @ CHR '':'' # CHR ''c'' # str_nat (c_chunk_index c2))"
    using assms by (simp add: source_ref_def)
  have sep: "\<not> ?P (CHR ''-'')" "\<not> ?P (CHR '':'')"
    by (simp_all add: ascii_digits_def)
  have dig: "\<forall>c\<in>set (str_nat n). ?P c" for n
    using str_nat_digits by blast
  from field_unique[OF dig dig sep(1) sep(1) eq]
  have "str_nat (c_page_end c1) @ CHR '':'' # CHR ''c'' # str_nat (c_chunk_index c1)
      = str_nat (c_page_end c2) @ CHR '':'' # CHR ''c'' # str_nat (c_chunk_index c2)"
    by simp
  from field_unique[OF dig dig sep(2) sep(2) this]
  have "str_nat (c_chunk_index c1) = str_nat (c_chunk_index c2)"
    by simp
  then show ?thesis by (rule str_nat_inj)
qed

lemma distinct_map_via:
  assumes "distinct (map g xs)" "\<And>x y. f x = f y \<Longrightarrow> g x = g y"
  shows "distinct (map f xs)"
  using assms(1)
proof (induction xs)
  case Nil
  then show ?case by simp
next
  case (Cons x xs)
  have "f x \<notin> f ` set xs"
  proof
    assume "f x \<in> f ` set xs"
    then obtain y where "y \<in> set xs" "f x = f y" by blast
    then have "g x \<in> g ` set xs" using assms(2) by (metis imageI)
    with Cons.prems show False by simp
  qed
  with Cons show ?case by simp
qed

lemma build_chunks_distinct_indices:
  "distinct (map c_chunk_index (build_chunks tokens max_words overlap_words))"
proof -
  have "map c_chunk_index (build_chunks tokens max_words overlap_words)
          = [1 ..< 1 + length (build_chunks_loop tokens max_words overlap_words 0 1)]
      \<or> build_chunks tokens max_words overlap_words = []"
    using loop_indices[of tokens max_words overlap_words 0 1]
    by (simp add: build_chunks_def del: upt_Suc)
  then show ?thesis
    by (metis distinct_upt distinct.simps(1) list.simps(8))
qed

lemma upsert_row_self: "r \<in> set (upsert_row rows r)"
  by (auto simp: upsert_row_def)

lemma upsert_row_keeps:
  "x \<in> set rows \<Longrightarrow> k_source_ref x \<noteq> k_source_ref r \<Longrightarrow> x \<in> set (upsert_row rows r)"
  by (auto simp: upsert_row_def)

lemma upserted_rows_stored:
  "distinct (map k_source_ref rs) \<Longrightarrow> r \<in> set rs \<Longrightarrow> r \<in> set (foldl upsert_row rows rs)"
proof (induction rs arbitrary: r rule: rev_induct)
  case Nil
  then show ?case by simp
next
  case (snoc x xs)
  show ?case
  proof (cases "r = x")
    case True
    then show ?thesis by (simp add: upsert_row_self)
  next
    case False
    then have r: "r \<in> set xs" using snoc.prems(2) by simp
    have "k_source_ref x \<notin> k_source_ref ` set xs"
      using snoc.prems(1) by simp
    with r have "k_source_ref r \<noteq> k_source_ref x"
      by (metis imageI)
    moreover have "r \<in> set (foldl upsert_row rows xs)"
      using snoc.IH[OF _ r] snoc.prems(1) by simp
    ultimately show ?thesis by (simp add: upsert_row_keeps)
  qed
qed

text \<open>Upserts and deactivations leave an inactive row inactive.\<close>

lemma inactive_preserved:
  assumes "\<forall>op\<in>set ops. (\<exists>batch. op = UpsertChunks batch) \<or> (\<exists>k j. op = DeactivateOthers k j)"
    and "\<forall>d\<in>set (manual_documents s). d_id d = i \<longrightarrow> \<not> d_is_active d"
  shows "\<forall>d\<in>set (manual_documents (apply_ops s ops)). d_id d = i \<longrightarrow> \<not> d_is_active d"
  using assms
proof (induction ops arbitrary: s)
  case Nil
  then show ?case by (simp add: apply_ops_Nil)
next
  case (Cons op ops)
  have "\<forall>d\<in>set (manual_documents (apply_op s op)). d_id d = i \<longrightarrow> \<not> d_is_active d"
    using Cons.prems by (auto simp: deactivate_other_versions_active)
  with Cons show ?case by (simp add: apply_ops_Cons)
qed

lemma prepare_document_None:
  "prepare_document s None src md pc wc st w =
     (fresh_id s, get_next_version s (sf_path src),
      [InsertDocument (insert_document_row (fresh_id s) (sf_path src) (path_name (sf_path src))
         (sf_sha256 src) (get_next_version s (sf_path src)) md pc wc st w)])"
  by (simp add: prepare_document_def Let_def)

lemma insert_document_row_sel [simp]:
  "d_id (insert_document_row i k f h v md pc wc st w) = i"
  "d_source_key (insert_document_row i k f h v md pc wc st w) = k"
  "d_source_sha256 (insert_document_row i k f h v md pc wc st w) = h"
  "d_version (insert_document_row i k f h v md pc wc st w) = v"
  "d_is_active (insert_document_row i k f h v md pc wc st w) = False"
  by (simp_all add: insert_document_row_def)

lemma prepare_document_inactive:
  assumes "prepare_document s (get_existing_doc_for_hash s (sf_path src) (sf_sha256 src)) src
             md pc wc st w = (document_id, version, prepared)"
  shows "\<forall>d\<in>set (manual_documents (apply_ops s prepared)).
           d_id d = document_id \<longrightarrow> \<not> d_is_active d"
    and "\<forall>op\<in>set prepared. upserted_refs [op] = []"
proof -
  have "(\<forall>d\<in>set (manual_documents (apply_ops s prepared)).
           d_id d = document_id \<longrightarrow> \<not> d_is_active d)
      \<and> (\<forall>op\<in>set prepared. upserted_refs [op] = [])"
  proof (cases "get_existing_doc_for_hash s (sf_path src) (sf_sha256 src)")
    case None
    with assms have "document_id = fresh_id s"
      "prepared = [InsertDocument (insert_document_row (fresh_id s) (sf_path src)
          (path_name (sf_path src)) (sf_sha256 src) (get_next_version s (sf_path src))
          md pc wc st w)]"
      by (auto simp: prepare_document_None)
    then obtain row where row: "prepared = [InsertDocument row]" "d_id row = document_id"
      "\<not> d_is_active row" "document_id = fresh_id s"
      by simp
    have fresh: "d_id x \<noteq> fresh_id s" if "x \<in> set (manual_documents s)" for x
      using fresh_id_fresh[of s] that by (metis imageI)
    show ?thesis
      using row fresh by (auto simp: apply_ops_Cons apply_ops_Nil)
  next
    case (Some d)
    then have q: "document_id = d_id d"
      "prepared = [DeleteChunks (d_id d), UpdateDocument (d_id d) md pc wc st w False]"
      using assms by (auto simp: prepare_document_def)
    show ?thesis
      unfolding q
      by (auto simp: apply_ops_Cons apply_ops_Nil update_document_row_active)
  qed
  then show "\<forall>d\<in>set (manual_documents (apply_ops s prepared)).
           d_id d = document_id \<longrightarrow> \<not> d_is_active d"
    and "\<forall>op\<in>set prepared. upserted_refs [op] = []"
    by blast+
qed

text \<open>
  C4 as stated fails when the row of the file itself is the active version and the run is
  forced: the lookup finds that row, the row is reused, its chunks are deleted and it is set
  inactive, and the source key, which had an active version before the run, has none after.
\<close>

theorem no_usable_chunks_counterexample:
  "sf_raw_pages example_source_blank_same = Some [[LF]]
   \<and> build_chunks (build_token_stream (extract_page_records [[LF]]))
        (nat (a_chunk_words (example_args\<lparr> a_force := True \<rparr>)))
        (nat (a_overlap_words (example_args\<lparr> a_force := True \<rparr>))) = []
   \<and> fst (process_source (example_args\<lparr> a_force := True \<rparr>) example_metadata example_embed
          (Some example_store) example_source_blank_same) = NoUsableChunks
   \<and> map d_id (active_versions example_store ''appliance_docs/washer.pdf'') = [1]
   \<and> active_versions (apply_ops example_store
        (snd (process_source (example_args\<lparr> a_force := True \<rparr>) example_metadata
                example_embed (Some example_store) example_source_blank_same)))
        ''appliance_docs/washer.pdf'' = []
   \<and> manual_chunks (apply_ops example_store
        (snd (process_source (example_args\<lparr> a_force := True \<rparr>) example_metadata
                example_embed (Some example_store) example_source_blank_same))) = []"
  by code_simp

lemma chunk_payload_document_id [simp]:
  "k_document_id (chunk_payload md slug v i ce) = i"
  by (cases ce) (simp add: chunk_payload_def)

lemma payload_distinct_refs:
  assumes "length (build_chunks tokens mw ow) \<le> length es"
  shows "distinct (map k_source_ref
           (map (chunk_payload md slug v i) (zip (build_chunks tokens mw ow) es)))"
proof -
  have "distinct (map (source_ref slug v) (build_chunks tokens mw ow))"
    using build_chunks_distinct_indices source_ref_inj_index by (rule distinct_map_via)
  then show ?thesis
    using payload_refs[OF assms] by simp
qed

lemma take_before_last:
  assumes "length a \<le> k" "k < length (a @ mid @ [x])"
  shows "\<exists>ops. take k (a @ mid @ [x]) = a @ ops \<and> set ops \<subseteq> set mid"
proof -
  have "take k (a @ mid @ [x]) = a @ take (k - length a) (mid @ [x])"
    using assms(1) by simp
  moreover have "take (k - length a) (mid @ [x]) = take (k - length a) mid"
    using assms by simp
  moreover have "set (take (k - length a) mid) \<subseteq> set mid"
    by (rule set_take_subset)
  ultimately show ?thesis by metis
qed

text \<open>
  C2 (amended).  The writes of a run that reaches the commit phase are, in this order: the
  preparation of the row (no upsert, no deactivation), the upserts of all chunk rows of the
  version, the deactivation of the other active versions of the source key, the activation
  of the row.  In every state from the end of the preparation to just before the last
  write the row of the version is inactive, so the version is never active with a part of
  its chunks.  In the state after the last upsert and before the deactivation, every chunk
  row of the version is stored under the id of the version, and every row with another id,
  a previously active version among them, is as it was before the run.
\<close>

theorem commit_writes_in_order:
  assumes "validate_batch_sizes args = None"
    and "process_source args build_metadata embed_batch (Some s) src = (Committed n, writes)"
  shows "\<exists>prepared batches document_id md pc wc st w.
      writes = prepared @ map UpsertChunks batches
                 @ [DeactivateOthers (sf_path src) document_id,
                    UpdateDocument document_id md pc wc st w True]
      \<and> (\<forall>op\<in>set prepared. upserted_refs [op] = [] \<and> \<not> is_deactivation op)
      \<and> length (concat batches) = n \<and> 0 < n
      \<and> (\<forall>k. length prepared \<le> k \<and> k < length writes \<longrightarrow>
            (\<forall>d\<in>set (manual_documents (apply_ops s (take k writes))).
               d_id d = document_id \<longrightarrow> \<not> d_is_active d))
      \<and> (\<forall>r\<in>set (concat batches).
            k_document_id r = document_id
            \<and> r \<in> set (manual_chunks (apply_ops s (prepared @ map UpsertChunks batches))))
      \<and> filter (\<lambda>d. d_id d \<noteq> document_id)
            (manual_documents (apply_ops s (prepared @ map UpsertChunks batches)))
          = filter (\<lambda>d. d_id d \<noteq> document_id) (manual_documents s)"
proof -
  have ub: "0 < nat (a_upsert_batch_size args)"
    using assms(1) by (rule valid_upsert_batch_size)
  from assms(2) obtain raw_pages where
    wd: "write_document args embed_batch s
           (get_existing_doc_for_hash s (sf_path src) (sf_sha256 src)) src
           (build_metadata src (extract_page_records raw_pages)) (extract_page_records raw_pages)
           (build_chunks (build_token_stream (extract_page_records raw_pages))
              (nat (a_chunk_words args)) (nat (a_overlap_words args))) = (Committed n, writes)"
    by (rule process_source_Committed)
  let ?md = "build_metadata src (extract_page_records raw_pages)"
  let ?slug = "slugify (path_stem (sf_path src))"
  let ?chunks = "build_chunks (build_token_stream (extract_page_records raw_pages))
              (nat (a_chunk_words args)) (nat (a_overlap_words args))"
  from wd obtain document_id version prepared embeddings pc wc st w where
    p: "prepare_document s (get_existing_doc_for_hash s (sf_path src) (sf_sha256 src)) src
          ?md pc wc st w = (document_id, version, prepared)"
    and ne: "?chunks \<noteq> []" and le: "length ?chunks \<le> length embeddings"
    and n: "n = length ?chunks"
    and ws: "writes = prepared @ map UpsertChunks (split_batches
                (map (chunk_payload ?md ?slug version document_id) (zip ?chunks embeddings))
                (nat (a_upsert_batch_size args)))
               @ [DeactivateOthers (sf_path src) document_id,
                  UpdateDocument document_id ?md pc wc st w True]"
    by (rule write_document_Committed)
  define payload where
    "payload = map (chunk_payload ?md ?slug version document_id) (zip ?chunks embeddings)"
  define batches where "batches = split_batches payload (nat (a_upsert_batch_size args))"
  have cat: "concat batches = payload"
    unfolding batches_def using ub by (rule concat_split_batches)
  have len: "length payload = n"
    unfolding payload_def using le n by simp
  have ws': "writes = prepared @ map UpsertChunks batches
                 @ [DeactivateOthers (sf_path src) document_id,
                    UpdateDocument document_id ?md pc wc st w True]"
    using ws by (simp add: batches_def payload_def)
  let ?s1 = "apply_ops s prepared"
  note inact = prepare_document_inactive[OF p]
  note others = prepare_document_others[OF p]
  have a: "\<forall>op\<in>set prepared. upserted_refs [op] = [] \<and> \<not> is_deactivation op"
    using inact(2) others(3) by blast
  have b: "length (concat batches) = n \<and> 0 < n"
    using cat len n ne by simp
  have c: "\<forall>k. length prepared \<le> k \<and> k < length writes \<longrightarrow>
            (\<forall>d\<in>set (manual_documents (apply_ops s (take k writes))).
               d_id d = document_id \<longrightarrow> \<not> d_is_active d)"
  proof (intro allI impI)
    fix k
    assume k: "length prepared \<le> k \<and> k < length writes"
    have "\<exists>ops. take k (prepared @ (map UpsertChunks batches
                   @ [DeactivateOthers (sf_path src) document_id])
                   @ [UpdateDocument document_id ?md pc wc st w True]) = prepared @ ops
            \<and> set ops \<subseteq> set (map UpsertChunks batches
                   @ [DeactivateOthers (sf_path src) document_id])"
      using k unfolding ws' by (intro take_before_last) simp_all
    then obtain ops where ops: "take k writes = prepared @ ops"
      "set ops \<subseteq> set (map UpsertChunks batches @ [DeactivateOthers (sf_path src) document_id])"
      unfolding ws' by auto
    have "\<forall>op\<in>set ops. (\<exists>batch. op = UpsertChunks batch) \<or> (\<exists>k j. op = DeactivateOthers k j)"
      using ops(2) by auto
    from inactive_preserved[OF this inact(1)]
    show "\<forall>d\<in>set (manual_documents (apply_ops s (take k writes))).
               d_id d = document_id \<longrightarrow> \<not> d_is_active d"
      unfolding ops(1) by (simp add: apply_ops_append)
  qed
  have chunks: "manual_chunks (apply_ops s (prepared @ map UpsertChunks batches))
      = foldl upsert_row (manual_chunks ?s1) payload"
    by (simp add: apply_ops_append chunks_apply_upserts cat)
  have dist: "distinct (map k_source_ref payload)"
    unfolding payload_def using le by (rule payload_distinct_refs)
  have d: "\<forall>r\<in>set (concat batches).
            k_document_id r = document_id
            \<and> r \<in> set (manual_chunks (apply_ops s (prepared @ map UpsertChunks batches)))"
  proof
    fix r
    assume "r \<in> set (concat batches)"
    then have r: "r \<in> set payload" using cat by simp
    then have "k_document_id r = document_id"
      unfolding payload_def by auto
    moreover have "r \<in> set (manual_chunks (apply_ops s (prepared @ map UpsertChunks batches)))"
      unfolding chunks using dist r by (rule upserted_rows_stored)
    ultimately show "k_document_id r = document_id
            \<and> r \<in> set (manual_chunks (apply_ops s (prepared @ map UpsertChunks batches)))"
      by simp
  qed
  have e: "filter (\<lambda>d. d_id d \<noteq> document_id)
            (manual_documents (apply_ops s (prepared @ map UpsertChunks batches)))
          = filter (\<lambda>d. d_id d \<noteq> document_id) (manual_documents s)"
    using others(2) by (simp add: apply_ops_append docs_apply_upserts)
  show ?thesis
    by (rule exI[of _ prepared], rule exI[of _ batches], rule exI[of _ document_id],
        rule exI[of _ ?md], rule exI[of _ pc], rule exI[of _ wc], rule exI[of _ st],
        rule exI[of _ w])
       (intro conjI ws' a c d e conjunct1[OF b] conjunct2[OF b])
qed

text \<open>
  C2 as stated fails in two places.  A forced run on unchanged bytes deletes the chunk rows
  of the active row before it sets the row inactive: after the first write the store has an
  active version without chunks.  And a crash between the chunk upsert and the activation
  can fall after the deactivation: after all writes but the last, the source key, which had
  an active version before the run, has none.
\<close>

theorem commit_writes_counterexample:
  "fst (process_source (example_args\<lparr> a_force := True \<rparr>) example_metadata example_embed
          (Some example_store) example_source_unchanged) = Committed 1
   \<and> map d_is_active (manual_documents (apply_ops example_store
        (take 1 (snd (process_source (example_args\<lparr> a_force := True \<rparr>) example_metadata
                        example_embed (Some example_store) example_source_unchanged)))))
      = [True]
   \<and> manual_chunks (apply_ops example_store
        (take 1 (snd (process_source (example_args\<lparr> a_force := True \<rparr>) example_metadata
                        example_embed (Some example_store) example_source_unchanged))))
      = []
   \<and> fst (process_source example_args example_metadata example_embed (Some example_store)
             example_source_changed) = Committed 2
   \<and> length (snd (process_source example_args example_metadata example_embed
                     (Some example_store) example_source_changed)) = 4
   \<and> map d_id (active_versions example_store ''appliance_docs/washer.pdf'') = [1]
   \<and> upserted_refs (take 3 (snd (process_source example_args example_metadata example_embed
                     (Some example_store) example_source_changed)))
      = [''washer:v2:p1-1:c1'', ''washer:v2:p1-1:c2'']
   \<and> active_versions (apply_ops example_store
        (take 3 (snd (process_source example_args example_metadata example_embed
                        (Some example_store) example_source_changed))))
        ''appliance_docs/washer.pdf'' = []"
  by code_simp

theorem commit_writes_in_order_witness:
  "validate_batch_sizes example_args = None
   \<and> fst (process_source example_args example_metadata example_embed (Some example_store)
             example_source_changed) = Committed 2
   \<and> upserted_refs (snd (process_source example_args example_metadata example_embed
                           (Some example_store) example_source_changed))
       = [''washer:v2:p1-1:c1'', ''washer:v2:p1-1:c2'']
   \<and> is_deactivation (snd (process_source example_args example_metadata example_embed
                              (Some example_store) example_source_changed) ! 2)"
proof -
  let ?run = "process_source example_args example_metadata example_embed (Some example_store)
             example_source_changed"
  have v: "validate_batch_sizes example_args = None"
    by code_simp
  have f: "fst ?run = Committed 2"
    by code_simp
  then have h2: "?run = (Committed 2, snd ?run)"
    by (simp add: prod_eq_iff)
  have len: "length (snd ?run) = 4"
    by code_simp
  have r: "upserted_refs (snd ?run) = [''washer:v2:p1-1:c1'', ''washer:v2:p1-1:c2'']"
    by code_simp
  from commit_writes_in_order[OF v h2] obtain prepared batches document_id md pc wc st w where
    ws: "snd ?run = prepared @ map UpsertChunks batches
                 @ [DeactivateOthers (sf_path example_source_changed) document_id,
                    UpdateDocument document_id md pc wc st w True]"
    by blast
  have "length (prepared @ map UpsertChunks batches) = 2"
    using len unfolding ws by simp
  then have "snd ?run ! 2 = DeactivateOthers (sf_path example_source_changed) document_id"
    unfolding ws by (metis append.assoc nth_append_length)
  then have "is_deactivation (snd ?run ! 2)" by simp
  with v f r show ?thesis by blast
qed

end
